theory Spec2Isabelle
  imports Complex_Main "HOL-Library.Log_Nat" "HOL-Library.Sublist"
begin

section \<open>Python strings\<close>

text \<open>
  A Python \<open>str\<close> is modelled as a \<open>string\<close>, each \<open>char\<close> standing for the code point
  of the same number (U+0000 to U+00FF). The character classes below are Python's on that
  range.
\<close>

definition py_ord :: "char \<Rightarrow> nat" where
  "py_ord c = of_char c"

text \<open>\<open>str.lower\<close>: A to Z, and the upper-case letters U+00C0 to U+00DE but U+00D7.\<close>

definition lower_char :: "char \<Rightarrow> char" where
  "lower_char c =
     (if (65 \<le> py_ord c \<and> py_ord c \<le> 90)
         \<or> (192 \<le> py_ord c \<and> py_ord c \<le> 222 \<and> py_ord c \<noteq> 215)
      then char_of (py_ord c + 32) else c)"

definition lower :: "string \<Rightarrow> string" where
  "lower s = map lower_char s"

text \<open>
  The white space of \<open>str.split()\<close> and \<open>str.strip()\<close>: U+0009 to U+000D, U+001C to
  U+0020, U+0085 and U+00A0.
\<close>

definition is_space :: "char \<Rightarrow> bool" where
  "is_space c =
     ((9 \<le> py_ord c \<and> py_ord c \<le> 13) \<or> (28 \<le> py_ord c \<and> py_ord c \<le> 32)
      \<or> py_ord c = 133 \<or> py_ord c = 160)"

text \<open>\<open>s.split()\<close>: the maximal runs of characters that are not white space.\<close>

fun split_loop :: "string \<Rightarrow> string \<Rightarrow> string list" where
  "split_loop cur [] = (if cur = [] then [] else [cur])"
| "split_loop cur (c # cs) =
     (if is_space c then (if cur = [] then split_loop [] cs else cur # split_loop [] cs)
      else split_loop (cur @ [c]) cs)"

definition split :: "string \<Rightarrow> string list" where
  "split s = split_loop [] s"

text \<open>\<open>s.split(sep)\<close> for a separator of one character: one more part than separators.\<close>

fun split_on_loop :: "char \<Rightarrow> string \<Rightarrow> string \<Rightarrow> string list" where
  "split_on_loop sep cur [] = [cur]"
| "split_on_loop sep cur (c # cs) =
     (if c = sep then cur # split_on_loop sep [] cs else split_on_loop sep (cur @ [c]) cs)"

definition split_on :: "char \<Rightarrow> string \<Rightarrow> string list" where
  "split_on sep s = split_on_loop sep [] s"

definition strip :: "string \<Rightarrow> string" where
  "strip s = rev (dropWhile is_space (rev (dropWhile is_space s)))"

definition startswith :: "string \<Rightarrow> string \<Rightarrow> bool" where
  "startswith s p = (take (length p) s = p)"

definition endswith :: "string \<Rightarrow> string \<Rightarrow> bool" where
  "endswith s p = (length p \<le> length s \<and> drop (length s - length p) s = p)"

text \<open>\<open>s.replace("  ", " ")\<close>: the pairs of spaces from the left, without overlap.\<close>

fun replace_double_space :: "string \<Rightarrow> string" where
  "replace_double_space (a # b # cs) =
     (if a = CHR '' '' \<and> b = CHR '' '' then CHR '' '' # replace_double_space cs
      else a # replace_double_space (b # cs))"
| "replace_double_space cs = cs"

text \<open>\<open>", ".join(parts)\<close>.\<close>

fun join :: "string list \<Rightarrow> string" where
  "join [] = []"
| "join [p] = p"
| "join (p # q # ps) = p @ '', '' @ join (q # ps)"

text \<open>
  Among the code points of the model, those below U+0100, the decimal digits, which the
  regular expressions' \<open>\d\<close> and \<open>int\<close> accept, are 0 to 9; \<open>str.isdigit\<close> also accepts the
  superscripts U+00B2, U+00B3 and U+00B9, which \<open>int\<close> rejects. Unicode has further decimal
  digits beyond U+00FF, which \<open>\d\<close>, \<open>str.isdigit\<close> and \<open>int\<close> accept alike; what the
  theorems say on digits is therefore said through \<open>isdigit\<close> and \<open>py_int\<close>, or for the
  digits 0 to 9 as one case of them.
\<close>

definition is_digit :: "char \<Rightarrow> bool" where
  "is_digit c = (48 \<le> py_ord c \<and> py_ord c \<le> 57)"

definition isdigit_char :: "char \<Rightarrow> bool" where
  "isdigit_char c = (is_digit c \<or> py_ord c = 178 \<or> py_ord c = 179 \<or> py_ord c = 185)"

definition isdigit :: "string \<Rightarrow> bool" where
  "isdigit s = (s \<noteq> [] \<and> list_all isdigit_char s)"

definition digit_val :: "char \<Rightarrow> int" where
  "digit_val c = int (py_ord c) - 48"

definition digits_val :: "string \<Rightarrow> int" where
  "digits_val s = foldl (\<lambda>a c. 10 * a + digit_val c) 0 s"

text \<open>Integers in decimal, as \<open>str(n)\<close> and \<open>f"{n}"\<close> write them.\<close>

definition digit_char :: "int \<Rightarrow> char" where
  "digit_char d = ''0123456789'' ! nat d"

function show_digits :: "int \<Rightarrow> string" where
  "show_digits n =
     (if n < 10 then [digit_char n] else show_digits (n div 10) @ [digit_char (n mod 10)])"
  by pat_completeness auto
termination
  by (relation "measure nat") auto

declare show_digits.simps [simp del]

definition show_int :: "int \<Rightarrow> string" where
  "show_int i = (if i < 0 then CHR ''-'' # show_digits (- i) else show_digits i)"

text \<open>The number of decimal digits of a positive integer.\<close>

function decimal_length :: "int \<Rightarrow> int" where
  "decimal_length n = (if n \<le> 0 then 0 else decimal_length (n div 10) + 1)"
  by pat_completeness auto
termination
  by (relation "measure nat") auto

declare decimal_length.simps [simp del]

datatype error = ValueError | ZeroDivisionError | OverflowError | IndexError

text \<open>Sequencing of computations that may raise.\<close>

definition bind :: "error + 'a \<Rightarrow> ('a \<Rightarrow> error + 'b) \<Rightarrow> error + 'b" where
  "bind m f = (case m of Inl e \<Rightarrow> Inl e | Inr v \<Rightarrow> f v)"

text \<open>
  \<open>int(s)\<close> and \<open>float(s)\<close> strip the white space U+0009 to U+000D, U+0020, U+0085 and
  U+00A0; a group of digits may hold single underscores between digits. The limit on the
  number of digits that \<open>int\<close> has from Python 3.11 on is a setting of the interpreter and is
  left out.
\<close>

definition is_space_num :: "char \<Rightarrow> bool" where
  "is_space_num c =
     ((9 \<le> py_ord c \<and> py_ord c \<le> 13) \<or> py_ord c = 32 \<or> py_ord c = 133 \<or> py_ord c = 160)"

definition strip_num :: "string \<Rightarrow> string" where
  "strip_num s = rev (dropWhile is_space_num (rev (dropWhile is_space_num s)))"

fun digitpart :: "string \<Rightarrow> string option" where
  "digitpart [] = None"
| "digitpart [c] = (if is_digit c then Some [c] else None)"
| "digitpart (c # d # cs) =
     (if \<not> is_digit c then None
      else if d = CHR ''_'' then map_option ((#) c) (digitpart cs)
      else map_option ((#) c) (digitpart (d # cs)))"

definition split_sign :: "string \<Rightarrow> bool \<times> string" where
  "split_sign s =
     (case s of
        c # cs \<Rightarrow> if c = CHR ''-'' then (True, cs) else if c = CHR ''+'' then (False, cs) else (False, s)
      | [] \<Rightarrow> (False, s))"

definition py_int :: "string \<Rightarrow> error + int" where
  "py_int s =
     (let (neg, body) = split_sign (strip_num s)
      in case digitpart body of
           None \<Rightarrow> Inl ValueError
         | Some ds \<Rightarrow> Inr (if neg then - digits_val ds else digits_val ds))"

section \<open>Python floats\<close>

text \<open>
  A \<open>float\<close> is a binary64 number: a rational that 53 bits write (\<open>Finite\<close>, with
  \<open>Finite 0\<close> for \<open>0.0\<close>), minus zero, an infinity or NaN. Every operation rounds its
  exact result to the nearest such number, ties to the even one.
\<close>

datatype pyfloat = Finite rat | NegZero | PosInf | NegInf | NaN

definition pow2 :: "int \<Rightarrow> rat" where
  "pow2 e = (if 0 \<le> e then 2 ^ nat e else 1 / 2 ^ nat (- e))"

definition pow10 :: "int \<Rightarrow> rat" where
  "pow10 e = (if 0 \<le> e then 10 ^ nat e else 1 / 10 ^ nat (- e))"

definition round_half_even :: "rat \<Rightarrow> int" where
  "round_half_even x =
     (let f = \<lfloor>x\<rfloor>; d = x - of_int f
      in if d < 1 / 2 then f else if 1 / 2 < d then f + 1 else if even f then f else f + 1)"

text \<open>For \<open>0 < x\<close>, \<open>binade x\<close> is the exponent \<open>e\<close> with \<open>2 ^ e \<le> x < 2 ^ (e + 1)\<close>.\<close>

definition binade :: "rat \<Rightarrow> int" where
  "binade x =
     (let (p, q) = quotient_of x; e = bitlen p - bitlen q
      in if pow2 e \<le> x then e else e - 1)"

text \<open>The spacing of the binary64 numbers around \<open>x\<close>, subnormal below \<open>2 ^ - 1022\<close>.\<close>

definition quantum :: "rat \<Rightarrow> rat" where
  "quantum x = pow2 (max (binade x) (- 1022) - 52)"

definition round_mag :: "rat \<Rightarrow> rat" where
  "round_mag x = of_int (round_half_even (x / quantum x)) * quantum x"

definition inf_of :: "bool \<Rightarrow> pyfloat" where
  "inf_of neg = (if neg then NegInf else PosInf)"

definition zero_of :: "bool \<Rightarrow> pyfloat" where
  "zero_of neg = (if neg then NegZero else Finite 0)"

text \<open>Rounding of the magnitude \<open>x\<close> with the sign \<open>neg\<close>; overflow gives an infinity.\<close>

definition round_signed :: "bool \<Rightarrow> rat \<Rightarrow> pyfloat" where
  "round_signed neg x =
     (if x = 0 then zero_of neg
      else let m = round_mag x
           in if 2 ^ 1024 \<le> m then inf_of neg
              else if m = 0 then zero_of neg
              else Finite (if neg then - m else m))"

definition to_double :: "rat \<Rightarrow> pyfloat" where
  "to_double x = round_signed (x < 0) \<bar>x\<bar>"

fun is_neg :: "pyfloat \<Rightarrow> bool" where
  "is_neg (Finite r) = (r < 0)"
| "is_neg NegZero = True"
| "is_neg PosInf = False"
| "is_neg NegInf = True"
| "is_neg NaN = False"

fun fval :: "pyfloat \<Rightarrow> rat" where
  "fval (Finite r) = r"
| "fval f = 0"

definition is_inf :: "pyfloat \<Rightarrow> bool" where
  "is_inf f = (f = PosInf \<or> f = NegInf)"

definition is_zero :: "pyfloat \<Rightarrow> bool" where
  "is_zero f = (f = Finite 0 \<or> f = NegZero)"

definition fadd :: "pyfloat \<Rightarrow> pyfloat \<Rightarrow> pyfloat" where
  "fadd a b =
     (if a = NaN \<or> b = NaN then NaN
      else if is_inf a \<and> is_inf b then (if a = b then a else NaN)
      else if is_inf a then a
      else if is_inf b then b
      else if fval a + fval b = 0 then zero_of (is_neg a \<and> is_neg b)
      else to_double (fval a + fval b))"

definition fmul :: "pyfloat \<Rightarrow> pyfloat \<Rightarrow> pyfloat" where
  "fmul a b =
     (if a = NaN \<or> b = NaN then NaN
      else if (is_inf a \<and> is_zero b) \<or> (is_zero a \<and> is_inf b) then NaN
      else if is_inf a \<or> is_inf b then inf_of (is_neg a \<noteq> is_neg b)
      else round_signed (is_neg a \<noteq> is_neg b) \<bar>fval a * fval b\<bar>)"

text \<open>\<open>a / b\<close> on floats raises for a zero divisor before anything else.\<close>

definition fdiv :: "pyfloat \<Rightarrow> pyfloat \<Rightarrow> error + pyfloat" where
  "fdiv a b =
     (if is_zero b then Inl ZeroDivisionError
      else if a = NaN \<or> b = NaN then Inr NaN
      else if is_inf a \<and> is_inf b then Inr NaN
      else if is_inf a then Inr (inf_of (is_neg a \<noteq> is_neg b))
      else if is_inf b then Inr (zero_of (is_neg a \<noteq> is_neg b))
      else Inr (round_signed (is_neg a \<noteq> is_neg b) \<bar>fval a / fval b\<bar>))"

text \<open>The conversion of an \<open>int\<close> operand in mixed arithmetic, and \<open>n / d\<close> on two ints.\<close>

definition float_of_int :: "int \<Rightarrow> error + pyfloat" where
  "float_of_int i = (let f = to_double (of_int i) in if is_inf f then Inl OverflowError else Inr f)"

definition int_truediv :: "int \<Rightarrow> int \<Rightarrow> error + pyfloat" where
  "int_truediv n d =
     (if d = 0 then Inl ZeroDivisionError
      else let f = round_signed ((n < 0) \<noteq> (d < 0)) \<bar>of_int n / of_int d\<bar>
           in if is_inf f then Inl OverflowError else Inr f)"

text \<open>\<open>int(x)\<close> truncates, \<open>round(x)\<close> rounds ties to the even integer.\<close>

fun int_of_float :: "pyfloat \<Rightarrow> error + int" where
  "int_of_float (Finite r) = Inr (if r < 0 then \<lceil>r\<rceil> else \<lfloor>r\<rfloor>)"
| "int_of_float NegZero = Inr 0"
| "int_of_float NaN = Inl ValueError"
| "int_of_float f = Inl OverflowError"

fun py_round :: "pyfloat \<Rightarrow> error + int" where
  "py_round (Finite r) = Inr (round_half_even r)"
| "py_round NegZero = Inr 0"
| "py_round NaN = Inl ValueError"
| "py_round f = Inl OverflowError"

text \<open>
  \<open>float(s)\<close>: an optional sign, then \<open>inf\<close>, \<open>infinity\<close> or \<open>nan\<close> in any case, or
  digits with an optional point and an optional exponent.
\<close>

definition break_at :: "(char \<Rightarrow> bool) \<Rightarrow> string \<Rightarrow> string \<times> string option" where
  "break_at P s =
     (takeWhile (\<lambda>c. \<not> P c) s,
      case dropWhile (\<lambda>c. \<not> P c) s of [] \<Rightarrow> None | c # cs \<Rightarrow> Some cs)"

definition parse_exponent :: "string option \<Rightarrow> int option" where
  "parse_exponent ex =
     (case ex of
        None \<Rightarrow> Some 0
      | Some e \<Rightarrow>
          (let (neg, body) = split_sign e
           in map_option (\<lambda>ds. if neg then - digits_val ds else digits_val ds)
                (digitpart body)))"

definition parse_mantissa :: "string \<Rightarrow> (string \<times> string) option" where
  "parse_mantissa m =
     (case break_at (\<lambda>c. c = CHR ''.'') m of
        (ip, None) \<Rightarrow> map_option (\<lambda>ds. (ds, [])) (digitpart ip)
      | (ip, Some fp) \<Rightarrow>
          if ip = [] \<and> fp = [] then None
          else (case (if ip = [] then Some [] else digitpart ip,
                      if fp = [] then Some [] else digitpart fp) of
                  (Some ids, Some fds) \<Rightarrow> Some (ids, fds)
                | _ \<Rightarrow> None))"

definition parse_number :: "string \<Rightarrow> rat option" where
  "parse_number s =
     (case break_at (\<lambda>c. c = CHR ''e'' \<or> c = CHR ''E'') s of
        (m, ex) \<Rightarrow>
          (case (parse_mantissa m, parse_exponent ex) of
             (Some (ids, fds), Some e) \<Rightarrow>
               Some (of_int (digits_val (ids @ fds)) * pow10 (e - int (length fds)))
           | _ \<Rightarrow> None))"

definition py_float :: "string \<Rightarrow> error + pyfloat" where
  "py_float s =
     (let (neg, body) = split_sign (strip_num s)
      in if lower body = ''inf'' \<or> lower body = ''infinity'' then Inr (inf_of neg)
         else if lower body = ''nan'' then Inr NaN
         else (case parse_number body of
                 None \<Rightarrow> Inl ValueError
               | Some x \<Rightarrow> Inr (round_signed neg x)))"

text \<open>
  \<open>f"{x:g}"\<close>: six significant digits, rounded from the exact value; scientific notation
  when the decimal exponent is below -4 or at least 6; trailing zeros removed.
\<close>

definition decade :: "rat \<Rightarrow> int" where
  "decade x =
     (let (p, q) = quotient_of x; e = decimal_length p - decimal_length q
      in if pow10 e \<le> x then e else e - 1)"

definition strip_zeros :: "string \<Rightarrow> string" where
  "strip_zeros s = rev (dropWhile (\<lambda>c. c = CHR ''0'') (rev s))"

definition with_point :: "string \<Rightarrow> string \<Rightarrow> string" where
  "with_point ip fp = (if fp = [] then ip else ip @ CHR ''.'' # fp)"

definition format_g_pos :: "rat \<Rightarrow> string" where
  "format_g_pos x =
     (let e0 = decade x; d0 = round_half_even (x / pow10 (e0 - 5));
          e = (if d0 = 10 ^ 6 then e0 + 1 else e0);
          ds = show_digits (if d0 = 10 ^ 6 then 10 ^ 5 else d0)
      in if e < - 4 \<or> 6 \<le> e
         then with_point (take 1 ds) (strip_zeros (drop 1 ds))
              @ (if e < 0 then ''e-'' else ''e+'')
              @ (if \<bar>e\<bar> < 10 then ''0'' else []) @ show_digits \<bar>e\<bar>
         else if 0 \<le> e
         then with_point (take (nat e + 1) ds) (strip_zeros (drop (nat e + 1) ds))
         else ''0.'' @ replicate (nat (- e - 1)) CHR ''0'' @ strip_zeros ds)"

fun format_g :: "pyfloat \<Rightarrow> string" where
  "format_g (Finite r) =
     (if r = 0 then ''0'' else if r < 0 then CHR ''-'' # format_g_pos (- r) else format_g_pos r)"
| "format_g NegZero = ''-0''"
| "format_g PosInf = ''inf''"
| "format_g NegInf = ''-inf''"
| "format_g NaN = ''nan''"

section \<open>Patterns and tables\<close>

text \<open>
  The patterns are matched with \<open>match\<close>, from the start of the token. Without the
  multi-line flag, \<open>$\<close> matches at the end of the string and before a line feed that ends
  the string.
\<close>

definition at_end :: "string \<Rightarrow> bool" where
  "at_end rest = (rest = [] \<or> rest = [CHR 0x0A])"

definition is_letter :: "char \<Rightarrow> bool" where
  "is_letter c = ((65 \<le> py_ord c \<and> py_ord c \<le> 90) \<or> (97 \<le> py_ord c \<and> py_ord c \<le> 122))"

definition digits_n :: "nat \<Rightarrow> string \<Rightarrow> bool" where
  "digits_n n s = (length s = n \<and> list_all is_digit s)"

text \<open>\<open>^[A-Za-z]{4}$\<close>\<close>

definition ICAO_PATTERN :: "string \<Rightarrow> bool" where
  "ICAO_PATTERN s = (length (take 4 s) = 4 \<and> list_all is_letter (take 4 s) \<and> at_end (drop 4 s))"

text \<open>
  \<open>^(?P<direction>\d{3}|VRB)(?P<speed>\d{2,3})(G(?P<gust>\d{2,3}))?KT$\<close>, giving the three
  groups. What follows a group of two or three digits is never a digit, so the group is
  the whole run of digits and that run has two or three digits.
\<close>

definition digit_run :: "string \<Rightarrow> string" where
  "digit_run s = takeWhile is_digit s"

definition WIND_PATTERN :: "string \<Rightarrow> (string \<times> string \<times> string option) option" where
  "WIND_PATTERN s =
     (let direction = take 3 s; speed = digit_run (drop 3 s);
          rest = drop (length speed) (drop 3 s)
      in if \<not> (digits_n 3 direction \<or> direction = ''VRB'') then None
         else if \<not> (length speed = 2 \<or> length speed = 3) then None
         else if take 2 rest = ''KT'' \<and> at_end (drop 2 rest) then Some (direction, speed, None)
         else if take 1 rest = ''G''
         then (let gust = digit_run (drop 1 rest); rest' = drop (length gust) (drop 1 rest)
               in if (length gust = 2 \<or> length gust = 3) \<and> take 2 rest' = ''KT''
                     \<and> at_end (drop 2 rest')
                  then Some (direction, speed, Some gust) else None)
         else None)"

text \<open>\<open>^(?P<temp>M?\d{2})/(?P<dew>M?\d{2})$\<close>, giving the two groups.\<close>

definition temp_group :: "string \<Rightarrow> (string \<times> string) option" where
  "temp_group s =
     (let m = (if take 1 s = ''M'' then 1 else 0)
      in if digits_n 2 (take 2 (drop m s)) then Some (take (m + 2) s, drop (m + 2) s) else None)"

definition TEMP_PATTERN :: "string \<Rightarrow> (string \<times> string) option" where
  "TEMP_PATTERN s =
     (case temp_group s of
        None \<Rightarrow> None
      | Some (temp, rest) \<Rightarrow>
          if take 1 rest = ''/''
          then (case temp_group (drop 1 rest) of
                  None \<Rightarrow> None
                | Some (dew, rest') \<Rightarrow> if at_end rest' then Some (temp, dew) else None)
          else None)"

text \<open>\<open>^(A|Q)(?P<value>\d{4})$\<close>, giving the group \<open>value\<close>.\<close>

definition ALTIMETER_PATTERN :: "string \<Rightarrow> string option" where
  "ALTIMETER_PATTERN s =
     (if (take 1 s = ''A'' \<or> take 1 s = ''Q'') \<and> digits_n 4 (take 4 (drop 1 s))
         \<and> at_end (drop 5 s)
      then Some (take 4 (drop 1 s)) else None)"

definition CLOUD_COVER_MAP :: "(string \<times> string) list" where
  "CLOUD_COVER_MAP =
     [(''SKC'', ''clear sky''), (''CLR'', ''clear sky''), (''CAVOK'', ''ceiling and visibility OK''),
      (''FEW'', ''few clouds''), (''SCT'', ''scattered clouds''), (''BKN'', ''broken clouds''),
      (''OVC'', ''overcast'')]"

definition WEATHER_CODES :: "(string \<times> string) list" where
  "WEATHER_CODES =
     [(''RA'', ''rain''), (''DZ'', ''drizzle''), (''SN'', ''snow''), (''TS'', ''thunderstorm''),
      (''BR'', ''mist''), (''FG'', ''fog''), (''HZ'', ''haze''), (''FU'', ''smoke''),
      (''SG'', ''snow grains''), (''PL'', ''ice pellets''), (''GR'', ''hail''),
      (''GS'', ''small hail''), (''SS'', ''sandstorm''), (''DS'', ''duststorm'')]"

definition CARDINAL_DIRECTIONS :: "string list" where
  "CARDINAL_DIRECTIONS =
     [''north'', ''north-northeast'', ''northeast'', ''east-northeast'',
      ''east'', ''east-southeast'', ''southeast'', ''south-southeast'',
      ''south'', ''south-southwest'', ''southwest'', ''west-southwest'',
      ''west'', ''west-northwest'', ''northwest'', ''north-northwest'']"

text \<open>\<open>xs[i]\<close>: a negative index counts from the end, an index out of range raises.\<close>

definition list_get :: "'a list \<Rightarrow> int \<Rightarrow> error + 'a" where
  "list_get xs i =
     (let n = int (length xs); j = (if i < 0 then i + n else i)
      in if 0 \<le> j \<and> j < n then Inr (xs ! nat j) else Inl IndexError)"

section \<open>The station code\<close>

definition validate_icao :: "string \<Rightarrow> bool" where
  "validate_icao code = ICAO_PATTERN code"

section \<open>The matchers\<close>

text \<open>The degree sign U+00B0.\<close>

definition degree_sign :: char where
  "degree_sign = CHR 0xB0"

text \<open>
  \<open>_extract_sky_conditions\<close>: \<open>sky_step\<close> is the body of the loop for one token, from
  the list \<open>conditions\<close> to its new value.
\<close>

definition sky_step :: "string \<Rightarrow> string list \<Rightarrow> error + string list" where
  "sky_step token conditions =
     (if token \<in> {''NIL'', ''AUTO'', ''COR''} then Inr conditions
      else if token = ''CAVOK'' then Inr (conditions @ [''Ceiling and visibility OK''])
      else let coverage_code = take 3 token
           in if map_of CLOUD_COVER_MAP coverage_code \<noteq> None \<and> isdigit (take 3 (drop 3 token))
              then bind (py_int (take 3 (drop 3 token)))
                     (\<lambda>n. let height = n * 100;
                              description = the (map_of CLOUD_COVER_MAP coverage_code)
                          in Inr (conditions @ [description @ '' at '' @ show_int height @ '' ft'']))
              else if token \<in> {''SKC'', ''CLR''}
              then (if ''Clear sky'' \<notin> set conditions then Inr (conditions @ [''Clear sky''])
                    else Inr conditions)
              else Inr conditions)"

fun sky_loop :: "string list \<Rightarrow> string list \<Rightarrow> error + string list" where
  "sky_loop [] conditions = Inr conditions"
| "sky_loop (token # tokens) conditions = bind (sky_step token conditions) (sky_loop tokens)"

definition extract_sky_conditions :: "string list \<Rightarrow> error + string list" where
  "extract_sky_conditions tokens = sky_loop tokens []"

definition decode_temperature :: "string \<Rightarrow> error + int" where
  "decode_temperature v =
     (if startswith v ''M'' then bind (py_int (drop 1 v)) (\<lambda>n. Inr (- n)) else py_int v)"

fun extract_temperature :: "string list \<Rightarrow> error + string option" where
  "extract_temperature [] = Inr None"
| "extract_temperature (token # tokens) =
     (case TEMP_PATTERN token of
        Some (temp, dew) \<Rightarrow>
          bind (decode_temperature temp)
            (\<lambda>t. Inr (Some (''Temperature '' @ show_int t @ [degree_sign] @ ''C'')))
      | None \<Rightarrow> extract_temperature tokens)"

fun extract_dew_point :: "string list \<Rightarrow> error + string option" where
  "extract_dew_point [] = Inr None"
| "extract_dew_point (token # tokens) =
     (case TEMP_PATTERN token of
        Some (temp, dew) \<Rightarrow>
          bind (decode_temperature dew)
            (\<lambda>d. Inr (Some (''Dew point '' @ show_int d @ [degree_sign] @ ''C'')))
      | None \<Rightarrow> extract_dew_point tokens)"

text \<open>
  \<open>_degrees_to_cardinal\<close>: \<open>int((degrees % 360) / 22.5 + 0.5) % len(CARDINAL_DIRECTIONS)\<close>;
  the literals 22.5 and 0.5 are binary64 numbers as they stand.
\<close>

definition cardinal_index :: "int \<Rightarrow> error + int" where
  "cardinal_index degrees =
     bind (float_of_int (degrees mod 360))
       (\<lambda>d. bind (fdiv d (Finite (45 / 2)))
          (\<lambda>q. bind (int_of_float (fadd q (Finite (1 / 2))))
             (\<lambda>n. Inr (n mod int (length CARDINAL_DIRECTIONS)))))"

definition degrees_to_cardinal :: "int \<Rightarrow> error + string" where
  "degrees_to_cardinal degrees =
     bind (cardinal_index degrees) (\<lambda>index. list_get CARDINAL_DIRECTIONS index)"

definition wind_phrase :: "string \<times> string \<times> string option \<Rightarrow> error + string" where
  "wind_phrase m =
     (case m of (direction, speed_group, gust) \<Rightarrow>
        bind (py_int speed_group)
          (\<lambda>speed.
             if speed = 0 then Inr ''Calm winds''
             else bind (if direction = ''VRB'' then Inr ''Variable winds''
                        else bind (py_int direction)
                               (\<lambda>direction_degrees.
                                  bind (degrees_to_cardinal direction_degrees)
                                    (\<lambda>cardinal. Inr (''Wind from the '' @ cardinal @ '' (''
                                        @ show_int direction_degrees @ [degree_sign] @ '')''))))
                    (\<lambda>direction_phrase.
                       bind (case gust of
                               Some g \<Rightarrow> if g \<noteq> [] then bind (py_int g)
                                   (\<lambda>gi. Inr ('', gusting to '' @ show_int gi @ '' kt''))
                                 else Inr []
                             | None \<Rightarrow> Inr [])
                         (\<lambda>gust_phrase.
                            Inr (direction_phrase @ '' at '' @ show_int speed @ '' kt''
                                 @ gust_phrase)))))"

fun extract_wind :: "string list \<Rightarrow> error + string option" where
  "extract_wind [] = Inr None"
| "extract_wind (token # tokens) =
     (case WIND_PATTERN token of
        Some m \<Rightarrow> bind (wind_phrase m) (\<lambda>p. Inr (Some p))
      | None \<Rightarrow> extract_wind tokens)"

definition fraction_to_float :: "string \<Rightarrow> error + pyfloat" where
  "fraction_to_float v =
     (case split_on CHR ''/'' v of
        [numerator, denominator] \<Rightarrow>
          bind (py_int numerator) (\<lambda>n. bind (py_int denominator) (\<lambda>d. int_truediv n d))
      | _ \<Rightarrow> Inl ValueError)"

text \<open>
  \<open>_convert_visibility_to_float\<close>: \<open>visibility_value\<close> is the body of the \<open>try\<close>; the
  handler turns a \<open>ValueError\<close> into \<open>None\<close> and lets every other exception through.
\<close>

definition visibility_value :: "string \<Rightarrow> error + pyfloat" where
  "visibility_value token =
     (let v = take (length token - 2) token;
          v = (if startswith v ''P'' then drop 1 v else v)
      in if CHR '' '' \<in> set v
         then (case split_on CHR '' '' v of
                 [whole, fr] \<Rightarrow>
                   bind (py_float whole) (\<lambda>w. bind (fraction_to_float fr) (\<lambda>f. Inr (fadd w f)))
               | _ \<Rightarrow> Inl ValueError)
         else if CHR ''/'' \<in> set v then fraction_to_float v
         else py_float v)"

definition convert_visibility_to_float :: "string \<Rightarrow> error + pyfloat option" where
  "convert_visibility_to_float token =
     (case visibility_value token of
        Inr miles \<Rightarrow> Inr (Some miles)
      | Inl e \<Rightarrow> if e = ValueError then Inr None else Inl e)"

fun extract_visibility :: "string list \<Rightarrow> error + string option" where
  "extract_visibility [] = Inr None"
| "extract_visibility (token # tokens) =
     (if endswith token ''SM''
      then bind (convert_visibility_to_float token)
             (\<lambda>miles. case miles of
                 None \<Rightarrow> extract_visibility tokens
               | Some x \<Rightarrow> Inr (Some (''Visibility '' @ format_g x @ '' statute miles'')))
      else extract_visibility tokens)"

text \<open>
  \<open>_extract_pressure\<close>: \<open>value / 100.0\<close>, then \<open>round(inches * 33.8639)\<close>, where the
  literal 33.8639 is the binary64 number nearest to it.
\<close>

definition hpa_of_inches_x100 :: "int \<Rightarrow> error + int" where
  "hpa_of_inches_x100 v =
     bind (float_of_int v)
       (\<lambda>x. bind (fdiv x (Finite 100))
          (\<lambda>inches. py_round (fmul inches (to_double (338639 / 10000)))))"

fun extract_pressure :: "string list \<Rightarrow> error + string option" where
  "extract_pressure [] = Inr None"
| "extract_pressure (token # tokens) =
     (case ALTIMETER_PATTERN token of
        None \<Rightarrow> extract_pressure tokens
      | Some g \<Rightarrow>
          bind (py_int g)
            (\<lambda>v. if take 1 token = ''A''
                 then bind (hpa_of_inches_x100 v)
                        (\<lambda>hpa. Inr (Some (''Pressure '' @ show_int hpa @ '' hPa'')))
                 else if take 1 token = ''Q''
                 then Inr (Some (''Pressure '' @ show_int v @ '' hPa''))
                 else extract_pressure tokens))"

definition decode_intensity :: "string \<Rightarrow> string" where
  "decode_intensity modifier =
     (if modifier = ''-'' then ''Light ''
      else if modifier = ''+'' then ''Heavy ''
      else if modifier = ''VC'' then ''In the vicinity: ''
      else [])"

text \<open>The inner loop of \<open>_extract_weather\<close>: the first code of the table that ends the token.\<close>

fun weather_of_token :: "string \<Rightarrow> (string \<times> string) list \<Rightarrow> string option" where
  "weather_of_token token [] = None"
| "weather_of_token token ((code, description) # codes) =
     (if endswith token code
      then Some (decode_intensity (take (length token - length code) token) @ description)
      else weather_of_token token codes)"

fun phenomena_of :: "string list \<Rightarrow> string list" where
  "phenomena_of [] = []"
| "phenomena_of (token # tokens) =
     (case weather_of_token token WEATHER_CODES of
        Some p \<Rightarrow> p # phenomena_of tokens
      | None \<Rightarrow> phenomena_of tokens)"

definition extract_weather :: "string list \<Rightarrow> string option" where
  "extract_weather tokens =
     (let phenomena = phenomena_of tokens
      in if phenomena \<noteq> []
         then Some (''Weather: '' @ join (map (\<lambda>item. strip (replace_double_space item)) phenomena))
         else None)"

text \<open>
  The number that a group of the temperature pattern writes: two digits, negated after an
  \<open>M\<close>.
\<close>

definition temperature_value :: "string \<Rightarrow> int" where
  "temperature_value g = (if take 1 g = ''M'' then - digits_val (drop 1 g) else digits_val g)"

text \<open>
  The phrase for the groups of a wind token, in exact arithmetic: the compass point of the
  sector \<open>round(bearing / 22.5) mod 16\<close>, a tie going up.
\<close>

definition cardinal_name :: "int \<Rightarrow> string" where
  "cardinal_name bearing =
     CARDINAL_DIRECTIONS ! nat (\<lfloor>of_int bearing / (45 / 2) + 1 / 2 :: rat\<rfloor> mod 16)"

definition wind_text :: "string \<times> string \<times> string option \<Rightarrow> string" where
  "wind_text m =
     (case m of (direction, speed, gust) \<Rightarrow>
        if digits_val speed = 0 then ''Calm winds''
        else (if direction = ''VRB'' then ''Variable winds''
              else ''Wind from the '' @ cardinal_name (digits_val direction) @ '' (''
                   @ show_int (digits_val direction) @ [degree_sign] @ '')'')
             @ '' at '' @ show_int (digits_val speed) @ '' kt''
             @ (case gust of
                  None \<Rightarrow> []
                | Some g \<Rightarrow> '', gusting to '' @ show_int (digits_val g) @ '' kt''))"

text \<open>
  The sky matcher in the words of its contract. A token names a cloud layer when its first
  three characters are a cover code and the characters it has at the places 4 to 6, the
  slice \<open>token[3:6]\<close>, are digits: \<open>str.isdigit\<close> accepts the slice and \<open>int\<close> reads
  it. A slice that \<open>str.isdigit\<close> accepts and \<open>int\<close> rejects makes the height unreadable.
\<close>

definition cover_codes :: "string set" where
  "cover_codes = {''SKC'', ''CLR'', ''FEW'', ''SCT'', ''BKN'', ''OVC''}"

definition int_ok :: "string \<Rightarrow> bool" where
  "int_ok s = (case py_int s of Inr n \<Rightarrow> True | Inl e \<Rightarrow> False)"

definition int_value :: "string \<Rightarrow> int" where
  "int_value s = (case py_int s of Inr n \<Rightarrow> n | Inl e \<Rightarrow> 0)"

definition layer_token :: "string \<Rightarrow> bool" where
  "layer_token token =
     (take 3 token \<in> cover_codes \<and> isdigit (take 3 (drop 3 token))
      \<and> int_ok (take 3 (drop 3 token)))"

definition unreadable_height :: "string \<Rightarrow> bool" where
  "unreadable_height token =
     (take 3 token \<in> cover_codes \<and> isdigit (take 3 (drop 3 token))
      \<and> \<not> int_ok (take 3 (drop 3 token)))"

definition layer_phrase :: "string \<Rightarrow> string" where
  "layer_phrase token =
     the (map_of CLOUD_COVER_MAP (take 3 token)) @ '' at ''
     @ show_int (int_value (take 3 (drop 3 token)) * 100) @ '' ft''"

definition sky_phrase_step :: "string \<Rightarrow> string list \<Rightarrow> string list" where
  "sky_phrase_step token conditions =
     (if token \<in> {''NIL'', ''AUTO'', ''COR''} then conditions
      else if token = ''CAVOK'' then conditions @ [''Ceiling and visibility OK'']
      else if layer_token token then conditions @ [layer_phrase token]
      else if token \<in> {''SKC'', ''CLR''} \<and> ''Clear sky'' \<notin> set conditions
      then conditions @ [''Clear sky'']
      else conditions)"

fun sky_phrases :: "string list \<Rightarrow> string list \<Rightarrow> string list" where
  "sky_phrases [] conditions = conditions"
| "sky_phrases (token # tokens) conditions = sky_phrases tokens (sky_phrase_step token conditions)"

section \<open>Deduplication\<close>

text \<open>
  \<open>_deduplicate_preserve_order\<close>: the loop over \<open>items\<close> with its two variables, the set
  \<open>seen\<close> of lower-cased keys and the list \<open>result\<close>.
\<close>

fun dedup_loop :: "string list \<Rightarrow> string set \<Rightarrow> string list \<Rightarrow> string list" where
  "dedup_loop [] seen result = result"
| "dedup_loop (item # items) seen result =
     (let key = lower item
      in if key \<notin> seen then dedup_loop items (insert key seen) (result @ [item])
         else dedup_loop items seen result)"

definition deduplicate_preserve_order :: "string list \<Rightarrow> string list" where
  "deduplicate_preserve_order items = dedup_loop items {} []"

text \<open>The phrases kept, said directly: those whose key no earlier phrase has.\<close>

definition first_occurrences :: "string list \<Rightarrow> string list" where
  "first_occurrences items =
     map (\<lambda>i. items ! i)
       (filter (\<lambda>i. lower (items ! i) \<notin> lower ` set (take i items)) [0..<length items])"

section \<open>The report\<close>

text \<open>A phrase is appended when it is truthy: not \<open>None\<close> and not empty.\<close>

definition truthy :: "string option \<Rightarrow> string list" where
  "truthy p = (case p of None \<Rightarrow> [] | Some t \<Rightarrow> if t = [] then [] else [t])"

definition unable :: string where
  "unable = ''Unable to parse METAR report.''"

text \<open>The list \<open>phrases\<close> of \<open>parse_metar\<close> before the last line.\<close>

definition collect_phrases :: "string list \<Rightarrow> error + string list" where
  "collect_phrases tokens =
     bind (extract_sky_conditions tokens) (\<lambda>sky_phrases.
     bind (extract_temperature tokens) (\<lambda>temp_phrase.
     bind (extract_dew_point tokens) (\<lambda>dew_phrase.
     bind (extract_wind tokens) (\<lambda>wind_phrase.
     bind (extract_visibility tokens) (\<lambda>visibility_phrase.
     bind (extract_pressure tokens) (\<lambda>pressure_phrase.
       Inr (sky_phrases @ truthy temp_phrase @ truthy dew_phrase @ truthy wind_phrase
            @ truthy visibility_phrase @ truthy pressure_phrase
            @ truthy (extract_weather tokens))))))))"

definition parse_metar :: "string \<Rightarrow> error + string" where
  "parse_metar raw_metar =
     (if raw_metar = [] then Inr unable
      else bind (collect_phrases (split raw_metar))
             (\<lambda>phrases. if phrases \<noteq> [] then Inr (join (deduplicate_preserve_order phrases))
                        else Inr unable))"

text \<open>A phrase that begins with one of the characters of \<open>cs\<close>.\<close>

definition starts_in :: "string \<Rightarrow> string \<Rightarrow> bool" where
  "starts_in cs p = (p \<noteq> [] \<and> hd p \<in> set cs)"

section \<open>Properties of the deduplication\<close>

lemma first_occurrences_snoc:
  "first_occurrences (xs @ [x]) =
     first_occurrences xs @ (if lower x \<in> lower ` set xs then [] else [x])"
proof -
  have "filter (\<lambda>i. lower ((xs @ [x]) ! i) \<notin> lower ` set (take i (xs @ [x]))) [0..<length xs]
      = filter (\<lambda>i. lower (xs ! i) \<notin> lower ` set (take i xs)) [0..<length xs]"
    by (rule filter_cong) (auto simp: nth_append)
  moreover have "map (\<lambda>i. (xs @ [x]) ! i)
       (filter (\<lambda>i. lower (xs ! i) \<notin> lower ` set (take i xs)) [0..<length xs])
     = map (\<lambda>i. xs ! i)
       (filter (\<lambda>i. lower (xs ! i) \<notin> lower ` set (take i xs)) [0..<length xs])"
    by (rule map_cong) (auto simp: nth_append)
  ultimately show ?thesis
    by (simp add: first_occurrences_def)
qed

lemma dedup_loop_append:
  "dedup_loop items (lower ` set done) (first_occurrences done)
     = first_occurrences (done @ items)"
proof (induction items arbitrary: "done")
  case Nil
  then show ?case by simp
next
  case (Cons item items)
  show ?case
    using Cons.IH [of "done @ [item]"]
    by (cases "lower item \<in> lower ` set done")
      (simp_all add: first_occurrences_snoc insert_absorb Let_def)
qed

lemma dedup_first_occurrences:
  "deduplicate_preserve_order items = first_occurrences items"
  using dedup_loop_append [of items "[]"]
  by (simp add: deduplicate_preserve_order_def first_occurrences_def)

lemma first_occurrences_nil: "first_occurrences [] = []"
  by (simp add: first_occurrences_def)

lemma first_occurrences_subseq: "subseq (first_occurrences items) items"
proof (induction items rule: rev_induct)
  case Nil
  then show ?case by (simp add: first_occurrences_nil)
next
  case (snoc x xs)
  have "subseq (first_occurrences xs @ []) (xs @ [x])"
    by (rule list_emb_append_mono [OF snoc.IH]) simp
  moreover have "subseq (first_occurrences xs @ [x]) (xs @ [x])"
    by (rule list_emb_append_mono [OF snoc.IH]) simp
  ultimately show ?case
    by (simp add: first_occurrences_snoc)
qed

lemma first_occurrences_keys:
  "set (map lower (first_occurrences items)) = lower ` set items"
proof (induction items rule: rev_induct)
  case Nil
  then show ?case by (simp add: first_occurrences_nil)
next
  case (snoc x xs)
  then show ?case
    by (auto simp: first_occurrences_snoc)
qed

lemma first_occurrences_distinct: "distinct (map lower (first_occurrences items))"
proof (induction items rule: rev_induct)
  case Nil
  then show ?case by (simp add: first_occurrences_nil)
next
  case (snoc x xs)
  have "set (map lower (first_occurrences xs)) = lower ` set xs"
    by (rule first_occurrences_keys)
  with snoc show ?case
    by (auto simp: first_occurrences_snoc)
qed

text \<open>
  C4. The deduplication keeps exactly the phrases whose lower-cased text no earlier phrase
  has (the first occurrence of each), in their original order: the result is a subsequence of
  the input, its lower-cased texts are pairwise different and are those of the input. So of
  two phrases that differ only in case, the later one is dropped.
\<close>

theorem dedup_keeps_first_occurrences:
  "deduplicate_preserve_order items = first_occurrences items
   \<and> subseq (deduplicate_preserve_order items) items
   \<and> distinct (map lower (deduplicate_preserve_order items))
   \<and> set (map lower (deduplicate_preserve_order items)) = lower ` set items
   \<and> (lower a = lower b \<longrightarrow>
        deduplicate_preserve_order (xs @ a # ys @ [b]) = deduplicate_preserve_order (xs @ a # ys))"
proof -
  have "lower a = lower b \<Longrightarrow>
        first_occurrences ((xs @ a # ys) @ [b]) = first_occurrences (xs @ a # ys)"
    unfolding first_occurrences_snoc by auto
  then show ?thesis
    using first_occurrences_subseq [of items] first_occurrences_distinct [of items]
      first_occurrences_keys [of items]
    by (simp add: dedup_first_occurrences)
qed

theorem dedup_keeps_first_occurrences_witness:
  "lower ''Clear sky'' = lower ''clear sky''
   \<and> deduplicate_preserve_order ([''Overcast''] @ ''Clear sky'' # [''Calm winds''] @ [''clear sky''])
       = [''Overcast'', ''Clear sky'', ''Calm winds'']"
proof -
  have h: "lower ''Clear sky'' = lower ''clear sky''"
    by code_simp
  have e: "deduplicate_preserve_order ([''Overcast''] @ ''Clear sky'' # [''Calm winds''])
       = [''Overcast'', ''Clear sky'', ''Calm winds'']"
    by code_simp
  from h dedup_keeps_first_occurrences [where a = "''Clear sky''" and b = "''clear sky''"
      and xs = "[''Overcast'']" and ys = "[''Calm winds'']" and items = "[]"]
  have "deduplicate_preserve_order ([''Overcast''] @ ''Clear sky'' # [''Calm winds''] @ [''clear sky''])
      = deduplicate_preserve_order ([''Overcast''] @ ''Clear sky'' # [''Calm winds''])"
    by blast
  with h e show ?thesis by simp
qed

section \<open>Rounding to binary64\<close>

lemma pow2_powi: "pow2 e = 2 powi e"
  by (simp add: pow2_def power_int_def power_one_over inverse_eq_divide)

lemma pow2_pos: "0 < pow2 e"
  by (simp add: pow2_def)

lemma pow2_mono: "a \<le> b \<Longrightarrow> pow2 a \<le> pow2 b"
  unfolding pow2_powi by (rule power_int_increasing) simp_all

lemma pow2_less_imp: "pow2 a < pow2 b \<Longrightarrow> a < b"
  using pow2_mono [of b a] by (cases "a < b") auto

lemma pow2_diff: "pow2 (a - b) = pow2 a / pow2 b"
  unfolding pow2_powi by (simp add: power_int_diff)

lemma pow2_nat: "0 \<le> e \<Longrightarrow> pow2 e = of_int (2 ^ nat e)"
  by (simp add: pow2_def)

lemma round_half_even_error: "\<bar>of_int (round_half_even x) - x\<bar> \<le> 1 / 2"
proof -
  have "of_int \<lfloor>x\<rfloor> \<le> x" "x < of_int \<lfloor>x\<rfloor> + 1"
    by linarith+
  then show ?thesis
    by (auto simp: round_half_even_def Let_def)
qed

lemma round_half_even_of_int: "round_half_even (of_int z) = z"
  by (simp add: round_half_even_def)

lemma round_half_even_nonneg: "0 \<le> x \<Longrightarrow> 0 \<le> round_half_even x"
  by (auto simp: round_half_even_def Let_def)

lemma binade_le:
  assumes "0 < x"
  shows "pow2 (binade x) \<le> x"
proof -
  obtain p q where pq: "quotient_of x = (p, q)"
    by force
  have q: "0 < q"
    using quotient_of_denom_pos [OF pq] .
  have x: "x = of_int p / of_int q"
    using quotient_of_div [OF pq] .
  have p: "0 < p"
    using assms q x by (simp add: zero_less_divide_iff)
  have bp: "1 \<le> bitlen p" and bq: "1 \<le> bitlen q"
    using p q by (simp_all add: bitlen_alt_def)
  have 1: "(2::int) ^ nat (bitlen p - 1) \<le> p"
    using bitlen_bounds [OF p] by simp
  have 2: "q \<le> 2 ^ nat (bitlen q)"
    using bitlen_bounds [OF q] by simp
  have "pow2 (bitlen p - bitlen q - 1) = pow2 (bitlen p - 1) / pow2 (bitlen q)"
    using pow2_diff [of "bitlen p - 1" "bitlen q"] by (simp add: algebra_simps)
  also have "\<dots> = of_int (2 ^ nat (bitlen p - 1)) / of_int (2 ^ nat (bitlen q))"
    using bp bq by (simp add: pow2_nat)
  also have "\<dots> \<le> of_int p / of_int q"
    using 1 2 p q by (intro frac_le) (simp_all del: of_int_power)
  finally have low: "pow2 (bitlen p - bitlen q - 1) \<le> x"
    using x by simp
  show ?thesis
    using low by (simp add: binade_def pq Let_def)
qed

lemma quantum_pos: "0 < quantum x"
  by (simp add: quantum_def pow2_pos)

lemma round_mag_error: "\<bar>round_mag x - x\<bar> \<le> quantum x / 2"
proof -
  have "round_mag x - x = quantum x * (of_int (round_half_even (x / quantum x)) - x / quantum x)"
    using quantum_pos [of x] by (simp add: round_mag_def algebra_simps)
  then have "\<bar>round_mag x - x\<bar> = quantum x * \<bar>of_int (round_half_even (x / quantum x)) - x / quantum x\<bar>"
    using quantum_pos [of x] by (simp add: abs_mult)
  also have "\<dots> \<le> quantum x * (1 / 2)"
    using quantum_pos [of x] round_half_even_error [of "x / quantum x"]
    by (intro mult_left_mono) simp_all
  finally show ?thesis by simp
qed

lemma round_mag_nonneg: "0 \<le> x \<Longrightarrow> 0 \<le> round_mag x"
  using quantum_pos [of x] by (simp add: round_mag_def round_half_even_nonneg)

lemma quantum_le:
  assumes "0 < x" "x < pow2 k" "- 1021 \<le> k"
  shows "quantum x \<le> pow2 (k - 53)"
proof -
  have "pow2 (binade x) < pow2 k"
    using binade_le [OF assms(1)] assms(2) by simp
  then have "binade x < k"
    by (rule pow2_less_imp)
  with assms(3) have "max (binade x) (- 1022) - 52 \<le> k - 53"
    by simp
  then show ?thesis
    unfolding quantum_def by (rule pow2_mono)
qed

lemma round_signed_pos:
  assumes "0 \<le> x" "round_mag x < 2 ^ 1024"
  shows "round_signed False x = Finite (round_mag x)"
proof (cases "x = 0")
  case True
  then show ?thesis
    by (simp add: round_signed_def zero_of_def round_mag_def round_half_even_def)
next
  case False
  with assms show ?thesis
    by (auto simp: round_signed_def zero_of_def Let_def)
qed

lemma round_mag_int:
  assumes "0 \<le> n" "n < 2 ^ 53"
  shows "round_mag (of_int n) = of_int n"
proof (cases "n = 0")
  case True
  then show ?thesis
    by (simp add: round_mag_def round_half_even_def)
next
  case False
  with assms have pos: "0 < (of_int n :: rat)"
    by simp
  have "(of_int n :: rat) < 2 ^ 53"
    using assms(2) by (metis of_int_less_iff of_int_numeral of_int_power)
  then have "pow2 (binade (of_int n)) < pow2 53"
    using binade_le [OF pos] by (simp add: pow2_def)
  then have "binade (of_int n) < 53"
    by (rule pow2_less_imp)
  then have "max (binade (of_int n)) (- 1022) - 52 \<le> 0"
    by simp
  then obtain k where k: "max (binade (of_int n)) (- 1022) - 52 = - int k"
    by (metis neg_0_le_iff_le minus_minus nonneg_int_cases)
  have q: "quantum (of_int n) = 1 / 2 ^ k"
    unfolding quantum_def k by (simp add: pow2_def)
  have "of_int n / quantum (of_int n) = (of_int (n * 2 ^ k) :: rat)"
    by (simp add: q)
  then have "round_half_even (of_int n / quantum (of_int n)) = n * 2 ^ k"
    by (simp only: round_half_even_of_int)
  then show ?thesis
    by (simp add: round_mag_def q)
qed

lemma round_close:
  assumes "0 < x" "x < pow2 k" "- 1021 \<le> k" "k \<le> 1023"
  shows "round_signed False x = Finite (round_mag x) \<and> \<bar>round_mag x - x\<bar> \<le> pow2 (k - 54)"
proof -
  have "quantum x / 2 \<le> pow2 (k - 53) / 2"
    using quantum_le [OF assms(1-3)] by simp
  also have "\<dots> = pow2 (k - 54)"
    using pow2_diff [of "k - 53" 1] by (simp add: pow2_def)
  finally have err: "\<bar>round_mag x - x\<bar> \<le> pow2 (k - 54)"
    using round_mag_error [of x] by simp
  have "pow2 (k - 54) \<le> pow2 k"
    by (rule pow2_mono) simp
  with err assms(2) have "round_mag x < pow2 k + pow2 k"
    by linarith
  also have "\<dots> = pow2 (k + 1)"
    using pow2_diff [of "k + 1" 1] by (simp add: pow2_def)
  also have "\<dots> \<le> pow2 1024"
    by (rule pow2_mono) (use assms(4) in simp)
  finally have "round_mag x < 2 ^ 1024"
    by (simp add: pow2_def)
  with assms(1) err show ?thesis
    by (simp add: round_signed_pos)
qed

lemma float_of_int_small:
  assumes "0 \<le> n" "n < 2 ^ 53"
  shows "float_of_int n = Inr (Finite (of_int n))"
proof -
  have "(of_int n :: rat) < of_int (2 ^ 53)"
    using assms(2) by (simp only: of_int_less_iff)
  also have "\<dots> \<le> 2 ^ 1024"
    by simp
  finally have "round_mag (of_int n) < 2 ^ 1024"
    using round_mag_int [OF assms] by simp
  then have "round_signed False (of_int n) = Finite (of_int n)"
    using assms(1) round_mag_int [OF assms] by (simp add: round_signed_pos)
  then show ?thesis
    using assms(1) by (simp add: float_of_int_def to_double_def is_inf_def Let_def)
qed

lemma sector_floor:
  assumes "0 \<le> m" "m < 360"
  shows "bind (fdiv (Finite (of_int m)) (Finite (45 / 2)))
           (\<lambda>q. int_of_float (fadd q (Finite (1 / 2)))) = Inr ((4 * m + 45) div 90)"
proof -
  define x :: rat where "x = of_int m / (45 / 2)"
  define y where "y = round_mag x"
  have x0: "0 \<le> x" and x16: "x < 16"
    using assms by (simp_all add: x_def)
  have div: "fdiv (Finite (of_int m)) (Finite (45 / 2)) = Inr (round_signed False x)"
    using assms(1) by (simp add: fdiv_def is_zero_def is_inf_def x_def abs_if)
  have y: "round_signed False x = Finite y \<and> \<bar>y - x\<bar> \<le> pow2 (- 50)"
  proof (cases "x = 0")
    case True
    then show ?thesis
      by (simp add: y_def round_signed_def zero_of_def round_mag_def round_half_even_def pow2_def)
  next
    case False
    with x0 have "0 < x" by simp
    moreover have "x < pow2 4" using x16 by (simp add: pow2_def)
    ultimately show ?thesis
      using round_close [of x 4] by (simp add: y_def)
  qed
  have y0: "0 \<le> y"
    unfolding y_def using x0 by (rule round_mag_nonneg)
  define z where "z = round_mag (y + 1 / 2)"
  have small: "pow2 (- 50) \<le> 1 / 1000" "pow2 (- 49) \<le> 1 / 1000"
    by (simp_all add: pow2_def)
  have ey: "\<bar>y - x\<bar> \<le> 1 / 1000"
    using y small(1) by linarith
  have p5: "pow2 5 = 32"
    by (simp add: pow2_def)
  have "y + 1 / 2 < pow2 5"
    unfolding p5 using ey x16 by linarith
  moreover have "0 < y + 1 / 2"
    using y0 by simp
  ultimately have z: "round_signed False (y + 1 / 2) = Finite z \<and> \<bar>z - (y + 1 / 2)\<bar> \<le> pow2 (- 49)"
    using round_close [of "y + 1 / 2" 5] by (simp add: z_def)
  have add: "fadd (Finite y) (Finite (1 / 2)) = Finite z"
    using y0 z by (simp add: fadd_def is_inf_def to_double_def abs_if)
  have z0: "0 \<le> z"
    unfolding z_def using y0 by (intro round_mag_nonneg) simp
  define N where "N = 4 * m + 45"
  have r: "1 \<le> N mod 90 \<and> N mod 90 \<le> 89"
    unfolding N_def by presburger
  have "(of_int N :: rat) = of_int (90 * (N div 90) + N mod 90)"
    by simp
  then have N: "(of_int N :: rat) / 90 = of_int (N div 90) + of_int (N mod 90) / 90"
    by (simp only: of_int_add of_int_mult) simp
  have exact: "x + 1 / 2 = of_int N / 90"
    by (simp add: x_def N_def)
  have lo: "of_int (N div 90) + 1 / 90 \<le> x + 1 / 2"
    using r N exact by (simp add: divide_simps)
  have hi: "x + 1 / 2 \<le> of_int (N div 90) + 89 / 90"
    using r N exact by (simp add: divide_simps)
  have ez: "\<bar>z - (y + 1 / 2)\<bar> \<le> 1 / 1000"
    using z small(2) by linarith
  have "\<bar>z - (x + 1 / 2)\<bar> \<le> 2 / 1000"
    using ey ez by linarith
  with lo hi have "of_int (N div 90) \<le> z" "z < of_int (N div 90) + 1"
    by linarith+
  then have "\<lfloor>z\<rfloor> = N div 90"
    by (simp add: floor_unique)
  with div y add z0 show ?thesis
    by (simp add: bind_def N_def)
qed

lemma cardinal_index_exact:
  "cardinal_index d = Inr ((4 * (d mod 360) + 45) div 90 mod 16)"
proof -
  have m: "0 \<le> d mod 360" "d mod 360 < 360"
    by simp_all
  have "d mod 360 < 2 ^ 53"
    using m(2) by simp
  then have f: "float_of_int (d mod 360) = Inr (Finite (of_int (d mod 360)))"
    using m(1) by (rule float_of_int_small [rotated])
  have len: "length CARDINAL_DIRECTIONS = 16"
    by (simp add: CARDINAL_DIRECTIONS_def)
  have "cardinal_index d
      = bind (bind (fdiv (Finite (of_int (d mod 360))) (Finite (45 / 2)))
                (\<lambda>q. int_of_float (fadd q (Finite (1 / 2)))))
          (\<lambda>n. Inr (n mod int (length CARDINAL_DIRECTIONS)))"
    by (simp add: cardinal_index_def f bind_def split: sum.splits)
  also have "\<dots> = Inr ((4 * (d mod 360) + 45) div 90 mod 16)"
    using sector_floor [OF m] by (simp add: bind_def len)
  finally show ?thesis .
qed

lemma degrees_to_cardinal_exact:
  "degrees_to_cardinal d
     = Inr (CARDINAL_DIRECTIONS ! nat ((4 * (d mod 360) + 45) div 90 mod 16))"
  by (simp add: degrees_to_cardinal_def cardinal_index_exact bind_def list_get_def
      CARDINAL_DIRECTIONS_def)

lemma half_up_sector:
  "\<lfloor>of_int d / (45 / 2) + 1 / 2 :: rat\<rfloor> mod 16 = (4 * (d mod 360) + 45) div 90 mod 16"
proof -
  have "(of_int d / (45 / 2) + 1 / 2 :: rat) = of_int (4 * d + 45) / of_int 90"
    by simp
  then have "\<lfloor>of_int d / (45 / 2) + 1 / 2 :: rat\<rfloor> = (4 * d + 45) div 90"
    by (simp only: floor_divide_of_int_eq)
  moreover have "4 * d + 45 = (4 * (d mod 360) + 45) + 90 * (16 * (d div 360))"
  proof -
    have "d = 360 * (d div 360) + d mod 360"
      by simp
    then show ?thesis
      by linarith
  qed
  then have "(4 * d + 45) div 90 = (4 * (d mod 360) + 45) div 90 + 16 * (d div 360)"
    by (simp only: div_mult_self2 [of 90, simplified])
  ultimately show ?thesis
    by simp
qed

section \<open>The claims on the compass points\<close>

text \<open>
  C5. The helper takes the name at index \<open>round(bearing / 22.5) mod 16\<close> of the table of
  16 names that starts at north, where \<open>round\<close> is to the nearest integer with a tie going
  up to the next sector; the rounding errors of the floating-point division and addition
  never change the index. The bearings 354 to 360 and 0 to 5 give north, 180 gives south and
  270 gives west.
\<close>

theorem degrees_to_cardinal_rounds:
  "degrees_to_cardinal bearing
     = Inr (CARDINAL_DIRECTIONS ! nat (\<lfloor>of_int bearing / (45 / 2) + 1 / 2 :: rat\<rfloor> mod 16))
   \<and> length CARDINAL_DIRECTIONS = 16 \<and> CARDINAL_DIRECTIONS ! 0 = ''north''
   \<and> ((354 \<le> bearing \<and> bearing \<le> 360) \<or> (0 \<le> bearing \<and> bearing \<le> 5)
        \<longrightarrow> degrees_to_cardinal bearing = Inr ''north'')
   \<and> degrees_to_cardinal 180 = Inr ''south''
   \<and> degrees_to_cardinal 270 = Inr ''west''"
proof -
  have north: "degrees_to_cardinal bearing = Inr ''north''"
    if "(354 \<le> bearing \<and> bearing \<le> 360) \<or> (0 \<le> bearing \<and> bearing \<le> 5)"
  proof -
    from that consider "354 \<le> bearing \<and> bearing \<le> 360" | "0 \<le> bearing \<and> bearing \<le> 5"
      by blast
    then have "(4 * (bearing mod 360) + 45) div 90 mod 16 = 0"
    proof cases
      case 1
      then have "bearing \<in> {354, 355, 356, 357, 358, 359, 360}"
        by auto
      then show ?thesis
        by auto
    next
      case 2
      then have "bearing \<in> {0, 1, 2, 3, 4, 5}"
        by auto
      then show ?thesis
        by auto
    qed
    then show ?thesis
      by (simp add: degrees_to_cardinal_exact CARDINAL_DIRECTIONS_def)
  qed
  have exact: "degrees_to_cardinal bearing
      = Inr (CARDINAL_DIRECTIONS ! nat (\<lfloor>of_int bearing / (45 / 2) + 1 / 2 :: rat\<rfloor> mod 16))"
    by (simp only: degrees_to_cardinal_exact half_up_sector)
  have table: "length CARDINAL_DIRECTIONS = 16" "CARDINAL_DIRECTIONS ! 0 = ''north''"
    by (simp_all add: CARDINAL_DIRECTIONS_def)
  have fixed: "degrees_to_cardinal 180 = Inr ''south''" "degrees_to_cardinal 270 = Inr ''west''"
    by (simp_all add: degrees_to_cardinal_exact CARDINAL_DIRECTIONS_def)
  from exact table north fixed show ?thesis
    by blast
qed

theorem degrees_to_cardinal_rounds_witness:
  "((354 \<le> (357::int) \<and> (357::int) \<le> 360) \<or> (0 \<le> (357::int) \<and> (357::int) \<le> 5))
   \<and> degrees_to_cardinal 357 = Inr ''north''"
proof -
  have h: "(354 \<le> (357::int) \<and> (357::int) \<le> 360) \<or> (0 \<le> (357::int) \<and> (357::int) \<le> 5)"
    by simp
  from degrees_to_cardinal_rounds [of 357]
  have "(354 \<le> (357::int) \<and> (357::int) \<le> 360) \<or> (0 \<le> (357::int) \<and> (357::int) \<le> 5)
      \<longrightarrow> degrees_to_cardinal 357 = Inr ''north''"
    by (elim conjE)
  with h show ?thesis
    by blast
qed

text \<open>
  C9. For every integer, negative ones and those from 360 on included, the index computed
  is in the range 0 to 15, no step of the computation raises, and the result is one of the
  16 names of the table.
\<close>

theorem degrees_to_cardinal_total:
  "cardinal_index degrees \<in> Inr ` {0..15}
   \<and> degrees_to_cardinal degrees \<in> Inr ` set CARDINAL_DIRECTIONS"
proof -
  let ?i = "(4 * (degrees mod 360) + 45) div 90 mod 16"
  have range: "0 \<le> ?i" "?i < 16"
    by simp_all
  then have "nat ?i < length CARDINAL_DIRECTIONS"
    by (simp add: CARDINAL_DIRECTIONS_def)
  then have "CARDINAL_DIRECTIONS ! nat ?i \<in> set CARDINAL_DIRECTIONS"
    by (rule nth_mem)
  with range show ?thesis
    by (simp add: cardinal_index_exact degrees_to_cardinal_exact)
qed

section \<open>The claim on the station code\<close>

lemma validate_icao_letters:
  "length code = 4 \<Longrightarrow> list_all is_letter code \<Longrightarrow> validate_icao code"
  by (simp add: validate_icao_def ICAO_PATTERN_def at_end_def)

lemma validate_icao_iff:
  "validate_icao code \<longleftrightarrow>
     length (take 4 code) = 4 \<and> list_all is_letter (take 4 code)
     \<and> (drop 4 code = [] \<or> drop 4 code = [CHR 0x0A])"
  by (simp add: validate_icao_def ICAO_PATTERN_def at_end_def)

text \<open>
  C3. The validator accepts every string of four letters, and it also accepts four letters
  followed by one line feed: a string of length five with a character that is no letter.
\<close>

theorem validate_icao_trailing_newline:
  "validate_icao (''ABCD'' @ [CHR 0x0A]) \<and> length (''ABCD'' @ [CHR 0x0A]) = 5
   \<and> \<not> is_letter (CHR 0x0A)"
  by (simp add: validate_icao_def ICAO_PATTERN_def at_end_def is_letter_def py_ord_def)

section \<open>Parsing of integers\<close>

lemma digit_not_special:
  "is_digit c \<Longrightarrow> \<not> is_space_num c \<and> c \<noteq> CHR ''-'' \<and> c \<noteq> CHR ''+'' \<and> c \<noteq> CHR ''_''"
  by (auto simp: is_digit_def is_space_num_def py_ord_def)

lemma isdigit_char_not_special:
  "isdigit_char c \<Longrightarrow> \<not> is_space_num c \<and> c \<noteq> CHR ''-'' \<and> c \<noteq> CHR ''+'' \<and> c \<noteq> CHR ''_''"
  by (auto simp: isdigit_char_def is_digit_def is_space_num_def py_ord_def)

lemma strip_num_id:
  assumes "s \<noteq> []" "\<not> is_space_num (hd s)" "\<not> is_space_num (last s)"
  shows "strip_num s = s"
proof -
  have 1: "dropWhile is_space_num s = s"
    using assms(1,2) by (cases s) simp_all
  have "rev s \<noteq> []" "\<not> is_space_num (hd (rev s))"
    using assms(1,3) by (simp_all add: hd_rev)
  then have "dropWhile is_space_num (rev s) = rev s"
    by (cases "rev s") simp_all
  with 1 show ?thesis
    by (simp add: strip_num_def)
qed

lemma split_sign_id:
  assumes "s \<noteq> []" "hd s \<noteq> CHR ''-''" "hd s \<noteq> CHR ''+''"
  shows "split_sign s = (False, s)"
  using assms by (cases s) (simp_all add: split_sign_def)

lemma digitpart_digits: "s \<noteq> [] \<Longrightarrow> list_all is_digit s \<Longrightarrow> digitpart s = Some s"
  by (induction s rule: digitpart.induct) (auto dest: digit_not_special)

lemma digitpart_chars: "digitpart s = Some ds \<Longrightarrow> list_all (\<lambda>c. is_digit c \<or> c = CHR ''_'') s"
  by (induction s arbitrary: ds rule: digitpart.induct) (auto split: if_splits)

lemma py_int_digits:
  assumes "s \<noteq> []" "list_all is_digit s"
  shows "py_int s = Inr (digits_val s)"
proof -
  have "is_digit (hd s)" "is_digit (last s)"
    using assms by (simp_all add: list_all_iff)
  then have "strip_num s = s" "split_sign s = (False, s)"
    using assms(1) by (simp_all add: strip_num_id split_sign_id digit_not_special)
  then show ?thesis
    using assms by (simp add: py_int_def digitpart_digits)
qed

lemma py_int_isdigit_bad:
  assumes "isdigit s" "\<not> list_all is_digit s"
  shows "py_int s = Inl ValueError"
proof -
  have ne: "s \<noteq> []" and all: "list_all isdigit_char s"
    using assms(1) by (simp_all add: isdigit_def)
  then have "isdigit_char (hd s)" "isdigit_char (last s)"
    by (simp_all add: list_all_iff)
  then have s: "strip_num s = s" "split_sign s = (False, s)"
    using ne by (simp_all add: strip_num_id split_sign_id isdigit_char_not_special)
  have "digitpart s = None"
  proof (rule ccontr)
    assume "digitpart s \<noteq> None"
    then obtain ds where "digitpart s = Some ds"
      by blast
    then have "list_all (\<lambda>c. is_digit c \<or> c = CHR ''_'') s"
      by (rule digitpart_chars)
    with all have "list_all is_digit s"
      by (auto simp: list_all_iff dest: isdigit_char_not_special)
    with assms(2) show False
      by simp
  qed
  with s show ?thesis
    by (simp add: py_int_def)
qed

lemma py_int_digits_n: "digits_n n s \<Longrightarrow> 0 < n \<Longrightarrow> py_int s = Inr (digits_val s)"
  by (rule py_int_digits) (auto simp: digits_n_def)

section \<open>The claim on the sky matcher\<close>

lemma known_cover:
  "map_of CLOUD_COVER_MAP c \<noteq> None \<longleftrightarrow>
     c \<in> {''SKC'', ''CLR'', ''CAVOK'', ''FEW'', ''SCT'', ''BKN'', ''OVC''}"
  by (simp add: CLOUD_COVER_MAP_def)

lemma take3_not_CAVOK: "take 3 token \<noteq> ''CAVOK''"
proof
  assume "take 3 token = ''CAVOK''"
  then have "length (take 3 token) = 5"
    by simp
  then show False
    by simp
qed

lemma known_cover_take3:
  "map_of CLOUD_COVER_MAP (take 3 token) \<noteq> None \<longleftrightarrow> take 3 token \<in> cover_codes"
  using take3_not_CAVOK [of token] by (simp only: known_cover cover_codes_def) simp

lemma digits_isdigit: "s \<noteq> [] \<Longrightarrow> list_all is_digit s \<Longrightarrow> isdigit s"
  by (auto simp: isdigit_def isdigit_char_def list_all_iff)

lemma int_ok_value: "int_ok s \<Longrightarrow> py_int s = Inr (int_value s)"
  by (simp add: int_ok_def int_value_def split: sum.splits)

lemma sky_step_other:
  assumes "token \<notin> {''NIL'', ''AUTO'', ''COR''}" "token \<noteq> ''CAVOK''"
  shows "sky_step token conditions =
    (if map_of CLOUD_COVER_MAP (take 3 token) \<noteq> None \<and> isdigit (take 3 (drop 3 token))
     then bind (py_int (take 3 (drop 3 token)))
            (\<lambda>n. Inr (conditions @ [the (map_of CLOUD_COVER_MAP (take 3 token)) @ '' at ''
                     @ show_int (n * 100) @ '' ft'']))
     else if token \<in> {''SKC'', ''CLR''}
     then (if ''Clear sky'' \<notin> set conditions then Inr (conditions @ [''Clear sky''])
           else Inr conditions)
     else Inr conditions)"
  using assms unfolding sky_step_def Let_def by (simp only: if_False)

lemma sky_step_exact:
  assumes "\<not> unreadable_height token"
  shows "sky_step token conditions = Inr (sky_phrase_step token conditions)"
proof (cases "token \<in> {''NIL'', ''AUTO'', ''COR''}")
  case True
  then show ?thesis
    by (simp only: sky_step_def sky_phrase_step_def if_True)
next
  case admin: False
  show ?thesis
  proof (cases "token = ''CAVOK''")
    case True
    then show ?thesis
      by (simp add: sky_step_def sky_phrase_step_def)
  next
    case cavok: False
    note other = sky_step_other [OF admin cavok, of conditions]
    have spec: "sky_phrase_step token conditions =
        (if layer_token token then conditions @ [layer_phrase token]
         else if token \<in> {''SKC'', ''CLR''} \<and> ''Clear sky'' \<notin> set conditions
         then conditions @ [''Clear sky'']
         else conditions)"
      using admin cavok unfolding sky_phrase_step_def by (simp only: if_False)
    show ?thesis
    proof (cases "take 3 token \<in> cover_codes \<and> isdigit (take 3 (drop 3 token))")
      case True
      with assms have ok: "int_ok (take 3 (drop 3 token))"
        by (simp add: unreadable_height_def)
      with True have layer: "layer_token token"
        by (simp add: layer_token_def)
      have guard: "map_of CLOUD_COVER_MAP (take 3 token) \<noteq> None \<and> isdigit (take 3 (drop 3 token))"
        using True known_cover_take3 [of token] by blast
      have "sky_step token conditions
          = bind (py_int (take 3 (drop 3 token)))
              (\<lambda>n. Inr (conditions @ [the (map_of CLOUD_COVER_MAP (take 3 token)) @ '' at ''
                     @ show_int (n * 100) @ '' ft'']))"
        using guard by (simp only: other simp_thms if_True)
      also have "\<dots> = Inr (conditions @ [layer_phrase token])"
        by (simp only: int_ok_value [OF ok] bind_def sum.case layer_phrase_def)
      finally show ?thesis
        using layer by (simp only: spec if_True)
    next
      case False
      then have nolayer: "\<not> layer_token token"
        by (auto simp: layer_token_def)
      have guard: "\<not> (map_of CLOUD_COVER_MAP (take 3 token) \<noteq> None \<and> isdigit (take 3 (drop 3 token)))"
        using False known_cover_take3 [of token] by blast
      have "sky_step token conditions
          = (if token \<in> {''SKC'', ''CLR''}
             then (if ''Clear sky'' \<notin> set conditions then Inr (conditions @ [''Clear sky''])
                   else Inr conditions)
             else Inr conditions)"
        using guard by (simp only: other simp_thms if_False)
      also have "\<dots> = Inr (if token \<in> {''SKC'', ''CLR''} \<and> ''Clear sky'' \<notin> set conditions
             then conditions @ [''Clear sky''] else conditions)"
        by (simp only: if_distrib [of Inr] simp_thms split: if_splits) auto
      finally show ?thesis
        using nolayer by (simp only: spec if_False)
    qed
  qed
qed

lemma sky_loop_exact:
  "(\<forall>t \<in> set tokens. \<not> unreadable_height t)
   \<Longrightarrow> sky_loop tokens conditions = Inr (sky_phrases tokens conditions)"
proof (induction tokens arbitrary: conditions)
  case Nil
  then show ?case by simp
next
  case (Cons t tokens)
  then have "sky_step t conditions = Inr (sky_phrase_step t conditions)"
    by (intro sky_step_exact) simp
  with Cons show ?case
    by (simp add: bind_def)
qed

lemma digits_layer:
  assumes "take 3 token \<in> cover_codes" "take 3 (drop 3 token) \<noteq> []"
    "list_all is_digit (take 3 (drop 3 token))"
  shows "layer_token token
       \<and> int_value (take 3 (drop 3 token)) = digits_val (take 3 (drop 3 token))"
proof -
  have "py_int (take 3 (drop 3 token)) = Inr (digits_val (take 3 (drop 3 token)))"
    using assms(2,3) by (rule py_int_digits)
  then have "int_ok (take 3 (drop 3 token))"
    "int_value (take 3 (drop 3 token)) = digits_val (take 3 (drop 3 token))"
    by (simp_all add: int_ok_def int_value_def)
  moreover have "isdigit (take 3 (drop 3 token))"
    using assms(2,3) by (rule digits_isdigit)
  ultimately show ?thesis
    using assms(1) by (simp add: layer_token_def)
qed

lemma layer_phrase_not_clear: "layer_phrase token \<noteq> ''Clear sky''"
proof
  assume "layer_phrase token = ''Clear sky''"
  then have "last (layer_phrase token) = last ''Clear sky''"
    by (rule arg_cong)
  then show False
    by (simp add: layer_phrase_def)
qed

text \<open>
  C7, as stated, fails: the token \<open>FEW1\<close> has a cover code and one character after it, not
  three digits at the places 4 to 6, and the matcher gives the layer at 100 ft.
\<close>

theorem sky_short_height:
  "extract_sky_conditions [''FEW1''] = Inr [''few clouds at 100 ft'']
   \<and> \<not> digits_n 3 (take 3 (drop 3 ''FEW1'')) \<and> length ''FEW1'' = 4
   \<and> ''FEW1'' \<notin> {''NIL'', ''AUTO'', ''COR'', ''CAVOK''}"
proof -
  have "extract_sky_conditions [''FEW1''] = Inr [''few clouds at 100 ft'']"
    by code_simp
  then show ?thesis
    by (simp add: digits_n_def)
qed

text \<open>
  C7, amended. Take a token list in which no token has a cover code followed by a slice
  \<open>token[3:6]\<close> that \<open>str.isdigit\<close> accepts and \<open>int\<close> rejects. The sky matcher returns
  the phrases of \<open>sky_phrases\<close>, token by token and in token order: nothing for \<open>NIL\<close>,
  \<open>AUTO\<close> and \<open>COR\<close>; \<open>Ceiling and visibility OK\<close> for \<open>CAVOK\<close>, after which the scan goes
  on; for any other token the layer phrase, the description of the cover code, \<open>at\<close>, the
  height and \<open>ft\<close>, if and only if its first three characters are one of the cover codes SKC,
  CLR, FEW, SCT, BKN, OVC and the characters it has at the places 4 to 6 (at least one, at
  most three) are all digits, the height being the number they write times 100; and
  \<open>Clear sky\<close>, once, for a token that is \<open>SKC\<close> or \<open>CLR\<close> and nothing else.
\<close>

theorem sky_conditions_layers:
  "((\<forall>t \<in> set tokens. \<not> unreadable_height t)
      \<longrightarrow> extract_sky_conditions tokens = Inr (sky_phrases tokens []))
   \<and> (\<not> unreadable_height token
      \<longrightarrow> sky_step token conditions = Inr (sky_phrase_step token conditions))
   \<and> (token \<notin> {''NIL'', ''AUTO'', ''COR'', ''CAVOK''} \<and> \<not> unreadable_height token
      \<longrightarrow> (sky_step token conditions = Inr (conditions @ [layer_phrase token])
           \<longleftrightarrow> layer_token token))
   \<and> (take 3 token \<in> cover_codes \<and> take 3 (drop 3 token) \<noteq> []
        \<and> list_all is_digit (take 3 (drop 3 token))
      \<longrightarrow> layer_token token
          \<and> int_value (take 3 (drop 3 token)) = digits_val (take 3 (drop 3 token)))
   \<and> sky_loop (''CAVOK'' # tokens) conditions
       = sky_loop tokens (conditions @ [''Ceiling and visibility OK''])"
proof (intro conjI impI)
  assume "\<forall>t \<in> set tokens. \<not> unreadable_height t"
  then show "extract_sky_conditions tokens = Inr (sky_phrases tokens [])"
    unfolding extract_sky_conditions_def by (rule sky_loop_exact)
next
  assume "\<not> unreadable_height token"
  then show "sky_step token conditions = Inr (sky_phrase_step token conditions)"
    by (rule sky_step_exact)
next
  assume a: "token \<notin> {''NIL'', ''AUTO'', ''COR'', ''CAVOK''} \<and> \<not> unreadable_height token"
  then have admin: "token \<notin> {''NIL'', ''AUTO'', ''COR''}" and cavok: "token \<noteq> ''CAVOK''"
    by simp_all
  have step: "sky_step token conditions = Inr (sky_phrase_step token conditions)"
    using a by (intro sky_step_exact) simp
  have spec: "sky_phrase_step token conditions =
      (if layer_token token then conditions @ [layer_phrase token]
       else if token \<in> {''SKC'', ''CLR''} \<and> ''Clear sky'' \<notin> set conditions
       then conditions @ [''Clear sky'']
       else conditions)"
    using admin cavok unfolding sky_phrase_step_def by (simp only: if_False)
  show "sky_step token conditions = Inr (conditions @ [layer_phrase token]) \<longleftrightarrow> layer_token token"
  proof (cases "layer_token token")
    case True
    then show ?thesis
      by (simp only: step spec if_True simp_thms)
  next
    case False
    have "sky_phrase_step token conditions \<noteq> conditions @ [layer_phrase token]"
      using False layer_phrase_not_clear [of token] by (simp only: spec if_False) simp
    with False show ?thesis
      by (simp add: step)
  qed
next
  assume "take 3 token \<in> cover_codes \<and> take 3 (drop 3 token) \<noteq> []
        \<and> list_all is_digit (take 3 (drop 3 token))"
  then show "layer_token token"
    and "int_value (take 3 (drop 3 token)) = digits_val (take 3 (drop 3 token))"
    using digits_layer [of token] by simp_all
next
  have "sky_step ''CAVOK'' conditions = Inr (conditions @ [''Ceiling and visibility OK''])"
    by (simp add: sky_step_def)
  then show "sky_loop (''CAVOK'' # tokens) conditions
       = sky_loop tokens (conditions @ [''Ceiling and visibility OK''])"
    by (simp add: bind_def)
qed

theorem sky_conditions_layers_witness:
  "\<not> unreadable_height ''KJFK'' \<and> \<not> unreadable_height ''FEW025'' \<and> \<not> unreadable_height ''SKC''
   \<and> \<not> unreadable_height ''CAVOK'' \<and> \<not> unreadable_height ''CLR''
   \<and> \<not> unreadable_height ''SCT080''
   \<and> extract_sky_conditions [''KJFK'', ''FEW025'', ''SKC'', ''CAVOK'', ''CLR'', ''SCT080'']
       = Inr [''few clouds at 2500 ft'', ''Clear sky'', ''Ceiling and visibility OK'',
              ''scattered clouds at 8000 ft'']
   \<and> take 3 ''FEW025'' \<in> cover_codes \<and> take 3 (drop 3 ''FEW025'') \<noteq> []
   \<and> list_all is_digit (take 3 (drop 3 ''FEW025'')) \<and> layer_token ''FEW025''
   \<and> ''FEW025'' \<notin> {''NIL'', ''AUTO'', ''COR'', ''CAVOK''}
   \<and> sky_step ''FEW025'' [''Clear sky''] = Inr ([''Clear sky''] @ [layer_phrase ''FEW025''])"
proof -
  let ?tokens = "[''KJFK'', ''FEW025'', ''SKC'', ''CAVOK'', ''CLR'', ''SCT080'']"
  note inst = sky_conditions_layers [of ?tokens "''FEW025''" "[''Clear sky'']"]
  have u: "\<not> unreadable_height ''KJFK''" "\<not> unreadable_height ''FEW025''"
    "\<not> unreadable_height ''SKC''" "\<not> unreadable_height ''CAVOK''"
    "\<not> unreadable_height ''CLR''" "\<not> unreadable_height ''SCT080''"
    by code_simp+
  then have all: "\<forall>t \<in> set ?tokens. \<not> unreadable_height t"
    by simp
  have "(\<forall>t \<in> set ?tokens. \<not> unreadable_height t)
      \<longrightarrow> extract_sky_conditions ?tokens = Inr (sky_phrases ?tokens [])"
    using inst by (rule conjunct1)
  with all have "extract_sky_conditions ?tokens = Inr (sky_phrases ?tokens [])"
    by (rule rev_mp)
  moreover have "sky_phrases ?tokens []
      = [''few clouds at 2500 ft'', ''Clear sky'', ''Ceiling and visibility OK'',
         ''scattered clouds at 8000 ft'']"
    by code_simp
  ultimately have loop: "extract_sky_conditions ?tokens
      = Inr [''few clouds at 2500 ft'', ''Clear sky'', ''Ceiling and visibility OK'',
             ''scattered clouds at 8000 ft'']"
    by (rule trans [OF _ arg_cong [of _ _ Inr]])
  have d: "take 3 ''FEW025'' \<in> cover_codes \<and> take 3 (drop 3 ''FEW025'') \<noteq> []
      \<and> list_all is_digit (take 3 (drop 3 ''FEW025''))"
    by (simp add: cover_codes_def is_digit_def py_ord_def)
  have "take 3 ''FEW025'' \<in> cover_codes \<and> take 3 (drop 3 ''FEW025'') \<noteq> []
      \<and> list_all is_digit (take 3 (drop 3 ''FEW025''))
      \<longrightarrow> layer_token ''FEW025''
        \<and> int_value (take 3 (drop 3 ''FEW025'')) = digits_val (take 3 (drop 3 ''FEW025''))"
    using inst by (elim conjE)
  from this d have "layer_token ''FEW025''
        \<and> int_value (take 3 (drop 3 ''FEW025'')) = digits_val (take 3 (drop 3 ''FEW025''))"
    by (rule mp)
  then have layer: "layer_token ''FEW025''"
    by (rule conjunct1)
  have n: "''FEW025'' \<notin> {''NIL'', ''AUTO'', ''COR'', ''CAVOK''}"
    by simp
  from n u(2) have nu: "''FEW025'' \<notin> {''NIL'', ''AUTO'', ''COR'', ''CAVOK''}
      \<and> \<not> unreadable_height ''FEW025''"
    by (rule conjI)
  have "''FEW025'' \<notin> {''NIL'', ''AUTO'', ''COR'', ''CAVOK''} \<and> \<not> unreadable_height ''FEW025''
      \<longrightarrow> (sky_step ''FEW025'' [''Clear sky''] = Inr ([''Clear sky''] @ [layer_phrase ''FEW025''])
           \<longleftrightarrow> layer_token ''FEW025'')"
    using inst by (elim conjE)
  from this nu have "sky_step ''FEW025'' [''Clear sky''] = Inr ([''Clear sky''] @ [layer_phrase ''FEW025''])
           \<longleftrightarrow> layer_token ''FEW025''"
    by (rule mp)
  from this layer have step: "sky_step ''FEW025'' [''Clear sky'']
      = Inr ([''Clear sky''] @ [layer_phrase ''FEW025''])"
    by (rule iffD2)
  show ?thesis
    by (intro conjI u loop layer n step d [THEN conjunct1] d [THEN conjunct2, THEN conjunct1]
        d [THEN conjunct2, THEN conjunct2])
qed

section \<open>The temperature and dew point matchers\<close>

lemma digits_val_snoc: "digits_val (s @ [c]) = 10 * digits_val s + digit_val c"
  by (simp add: digits_val_def)

lemma digit_val_range: "is_digit c \<Longrightarrow> 0 \<le> digit_val c \<and> digit_val c \<le> 9"
  by (auto simp: is_digit_def digit_val_def)

lemma digits_val_range: "list_all is_digit s \<Longrightarrow> 0 \<le> digits_val s \<and> digits_val s < 10 ^ length s"
proof (induction s rule: rev_induct)
  case Nil
  then show ?case by (simp add: digits_val_def)
next
  case (snoc c s)
  then have "0 \<le> digits_val s" "digits_val s + 1 \<le> 10 ^ length s" "0 \<le> digit_val c" "digit_val c \<le> 9"
    using digit_val_range [of c] by simp_all
  then show ?case
    by (simp add: digits_val_snoc)
qed

lemma temp_group_shape:
  assumes "temp_group s = Some (g, r)"
  shows "(digits_n 2 g \<and> take 1 g \<noteq> ''M'') \<or> (take 1 g = ''M'' \<and> digits_n 2 (drop 1 g))"
proof (cases "take 1 s = ''M''")
  case True
  with assms have g: "g = take 3 s" and d: "digits_n 2 (take 2 (drop 1 s))"
    by (auto simp: temp_group_def Let_def numeral_3_eq_3 split: if_splits)
  have "take 1 g = ''M''"
    using True g by (simp add: take_take)
  moreover have "drop 1 g = take 2 (drop 1 s)"
    using g by (simp add: drop_take)
  ultimately show ?thesis
    using d by simp
next
  case False
  with assms have g: "g = take 2 s" and d: "digits_n 2 (take 2 s)"
    by (auto simp: temp_group_def Let_def numeral_2_eq_2 split: if_splits)
  have "take 1 g = take 1 s"
    using g by (simp add: take_take)
  with False g d show ?thesis
    by simp
qed

lemma decode_temperature_group:
  assumes "(digits_n 2 g \<and> take 1 g \<noteq> ''M'') \<or> (take 1 g = ''M'' \<and> digits_n 2 (drop 1 g))"
  shows "decode_temperature g = Inr (temperature_value g)"
  using assms
proof
  assume a: "digits_n 2 g \<and> take 1 g \<noteq> ''M''"
  then have "py_int g = Inr (digits_val g)"
    by (intro py_int_digits) (auto simp: digits_n_def)
  moreover have "\<not> startswith g ''M''"
    using a by (simp add: startswith_def)
  ultimately show ?thesis
    using a by (simp add: decode_temperature_def temperature_value_def)
next
  assume a: "take 1 g = ''M'' \<and> digits_n 2 (drop 1 g)"
  then have "py_int (drop 1 g) = Inr (digits_val (drop 1 g))"
    by (intro py_int_digits) (auto simp: digits_n_def)
  moreover have "startswith g ''M''"
    using a by (simp add: startswith_def)
  ultimately show ?thesis
    using a by (simp add: decode_temperature_def temperature_value_def bind_def)
qed

lemma TEMP_PATTERN_groups:
  assumes "TEMP_PATTERN t = Some (temp, dew)"
  shows "decode_temperature temp = Inr (temperature_value temp)
       \<and> decode_temperature dew = Inr (temperature_value dew)"
proof -
  from assms obtain r r' where "temp_group t = Some (temp, r)" "temp_group (drop 1 r) = Some (dew, r')"
    by (auto simp: TEMP_PATTERN_def split: option.splits if_splits)
  then show ?thesis
    by (auto intro!: decode_temperature_group dest: temp_group_shape)
qed

lemma extract_temperature_find:
  "extract_temperature tokens =
     (case find (\<lambda>t. TEMP_PATTERN t \<noteq> None) tokens of
        None \<Rightarrow> Inr None
      | Some t \<Rightarrow> Inr (Some (''Temperature ''
          @ show_int (temperature_value (fst (the (TEMP_PATTERN t)))) @ [degree_sign] @ ''C'')))"
proof (induction tokens)
  case Nil
  then show ?case by simp
next
  case (Cons t tokens)
  show ?case
  proof (cases "TEMP_PATTERN t")
    case None
    with Cons show ?thesis by simp
  next
    case (Some m)
    obtain temp dew where m: "m = (temp, dew)"
      by (cases m)
    with Some TEMP_PATTERN_groups [of t temp dew] show ?thesis
      by (simp add: bind_def)
  qed
qed

lemma extract_dew_point_find:
  "extract_dew_point tokens =
     (case find (\<lambda>t. TEMP_PATTERN t \<noteq> None) tokens of
        None \<Rightarrow> Inr None
      | Some t \<Rightarrow> Inr (Some (''Dew point ''
          @ show_int (temperature_value (snd (the (TEMP_PATTERN t)))) @ [degree_sign] @ ''C'')))"
proof (induction tokens)
  case Nil
  then show ?case by simp
next
  case (Cons t tokens)
  show ?case
  proof (cases "TEMP_PATTERN t")
    case None
    with Cons show ?thesis by simp
  next
    case (Some m)
    obtain temp dew where m: "m = (temp, dew)"
      by (cases m)
    with Some TEMP_PATTERN_groups [of t temp dew] show ?thesis
      by (simp add: bind_def)
  qed
qed

section \<open>The claim on the wind matcher\<close>

lemma degrees_to_cardinal_name: "degrees_to_cardinal d = Inr (cardinal_name d)"
  by (simp only: degrees_to_cardinal_exact cardinal_name_def half_up_sector)

lemma digit_run_digits: "list_all is_digit (digit_run s)"
  by (auto simp: digit_run_def list_all_iff dest: set_takeWhileD)

lemma WIND_PATTERN_groups:
  assumes "WIND_PATTERN t = Some (d, s, g)"
  shows "(d = ''VRB'' \<or> digits_n 3 d) \<and> s \<noteq> [] \<and> list_all is_digit s
       \<and> (case g of None \<Rightarrow> True | Some x \<Rightarrow> x \<noteq> [] \<and> list_all is_digit x)"
proof -
  have d: "d = take 3 t" and s: "s = digit_run (drop 3 t)"
    and dir: "digits_n 3 d \<or> d = ''VRB''" and len: "length s = 2 \<or> length s = 3"
    using assms by (auto simp: WIND_PATTERN_def Let_def split: if_splits)
  have g: "case g of None \<Rightarrow> True | Some x \<Rightarrow> (length x = 2 \<or> length x = 3) \<and> (\<exists>r. x = digit_run r)"
    using assms by (auto simp: WIND_PATTERN_def Let_def split: if_splits)
  have "s \<noteq> []"
    using len by auto
  moreover have "list_all is_digit s"
    unfolding s by (rule digit_run_digits)
  moreover have "case g of None \<Rightarrow> True | Some x \<Rightarrow> x \<noteq> [] \<and> list_all is_digit x"
    using g by (auto split: option.splits simp: digit_run_digits)
  ultimately show ?thesis
    using dir by blast
qed

lemma wind_phrase_text:
  assumes "d = ''VRB'' \<or> digits_n 3 d" "s \<noteq> []" "list_all is_digit s"
    and "case g of None \<Rightarrow> True | Some x \<Rightarrow> x \<noteq> [] \<and> list_all is_digit x"
  shows "wind_phrase (d, s, g) = Inr (wind_text (d, s, g))"
proof -
  have s: "py_int s = Inr (digits_val s)"
    using assms(2,3) by (rule py_int_digits)
  have d: "d \<noteq> ''VRB'' \<Longrightarrow> py_int d = Inr (digits_val d)"
    using assms(1) by (auto intro!: py_int_digits simp: digits_n_def)
  have g: "\<And>x. g = Some x \<Longrightarrow> x \<noteq> [] \<and> py_int x = Inr (digits_val x)"
    using assms(4) by (auto intro!: py_int_digits)
  show ?thesis
  proof (cases g)
    case None
    then show ?thesis
      using s d by (simp add: wind_phrase_def wind_text_def bind_def degrees_to_cardinal_name)
  next
    case (Some x)
    then show ?thesis
      using s d g [OF Some]
      by (simp add: wind_phrase_def wind_text_def bind_def degrees_to_cardinal_name)
  qed
qed

lemma extract_wind_find:
  "extract_wind tokens =
     (case find (\<lambda>t. WIND_PATTERN t \<noteq> None) tokens of
        None \<Rightarrow> Inr None
      | Some t \<Rightarrow> Inr (Some (wind_text (the (WIND_PATTERN t)))))"
proof (induction tokens)
  case Nil
  then show ?case by simp
next
  case (Cons t tokens)
  show ?case
  proof (cases "WIND_PATTERN t")
    case None
    with Cons show ?thesis by simp
  next
    case (Some m)
    obtain d s g where m: "m = (d, s, g)"
      by (cases m)
    have "wind_phrase (d, s, g) = Inr (wind_text (d, s, g))"
      using WIND_PATTERN_groups [of t d s g] Some m by (intro wind_phrase_text) simp_all
    with Some m show ?thesis
      by (simp add: bind_def)
  qed
qed

text \<open>
  C6. The wind matcher decodes the first token that matches the wind pattern and no other:
  it returns \<open>Calm winds\<close> when the speed group writes 0, whatever the direction and the
  gust; else \<open>Variable winds at <speed> kt\<close> for the direction \<open>VRB\<close>, and otherwise
  \<open>Wind from the <cardinal> (<degrees>\<degree>) at <speed> kt\<close>; in both cases
  \<open>, gusting to <gust> kt\<close> follows exactly when the token has a gust group. Without a
  matching token it returns nothing.
\<close>

theorem extract_wind_first_match:
  "extract_wind tokens =
     (case find (\<lambda>t. WIND_PATTERN t \<noteq> None) tokens of
        None \<Rightarrow> Inr None
      | Some t \<Rightarrow> Inr (Some (wind_text (the (WIND_PATTERN t)))))"
  by (rule extract_wind_find)

section \<open>The claim on temperature and dew point\<close>

lemma first_occurrences_append_subset:
  "set (first_occurrences xs) \<subseteq> set (first_occurrences (xs @ ys))"
proof (induction ys rule: rev_induct)
  case Nil
  then show ?case by simp
next
  case (snoc y ys)
  have "first_occurrences (xs @ ys @ [y]) = first_occurrences ((xs @ ys) @ [y])"
    by simp
  also have "\<dots> = first_occurrences (xs @ ys)
      @ (if lower y \<in> lower ` set (xs @ ys) then [] else [y])"
    by (rule first_occurrences_snoc)
  finally show ?case
    using snoc by auto
qed

lemma first_occurrence_kept:
  assumes "\<forall>s \<in> set pre. lower s \<noteq> lower p"
  shows "p \<in> set (deduplicate_preserve_order (pre @ p # post))"
proof -
  have "p \<in> set (first_occurrences (pre @ [p]))"
    using assms by (auto simp: first_occurrences_snoc)
  moreover have "set (first_occurrences (pre @ [p])) \<subseteq> set (first_occurrences ((pre @ [p]) @ post))"
    by (rule first_occurrences_append_subset)
  ultimately show ?thesis
    by (auto simp: dedup_first_occurrences)
qed

lemma dedup_subset: "set (deduplicate_preserve_order xs) \<subseteq> set xs"
  by (auto simp: dedup_first_occurrences first_occurrences_def)

lemma lower_heads:
  "lower_char CHR ''C'' = CHR ''c''" "lower_char CHR ''c'' = CHR ''c''"
  "lower_char CHR ''f'' = CHR ''f''" "lower_char CHR ''s'' = CHR ''s''"
  "lower_char CHR ''b'' = CHR ''b''" "lower_char CHR ''o'' = CHR ''o''"
  "lower_char CHR ''T'' = CHR ''t''" "lower_char CHR ''D'' = CHR ''d''"
  by code_simp+

lemma lower_differs:
  assumes "starts_in a s" "starts_in b p" "lower_char ` set a \<inter> lower_char ` set b = {}"
  shows "lower s \<noteq> lower p"
proof
  assume "lower s = lower p"
  then have "hd (lower s) = hd (lower p)"
    by simp
  moreover have "hd (lower s) = lower_char (hd s)" "hd (lower p) = lower_char (hd p)"
    using assms(1,2) by (simp_all add: starts_in_def lower_def hd_map)
  ultimately have "lower_char (hd s) = lower_char (hd p)"
    by simp
  with assms show False
    by (auto simp: starts_in_def)
qed

lemma cover_head:
  "c \<in> cover_codes \<Longrightarrow> starts_in ''Ccfsbo'' (the (map_of CLOUD_COVER_MAP c) @ rest)"
  by (auto simp: cover_codes_def CLOUD_COVER_MAP_def starts_in_def)

lemma sky_step_heads:
  assumes "sky_step token conditions = Inr cs" "list_all (starts_in ''Ccfsbo'') conditions"
  shows "list_all (starts_in ''Ccfsbo'') cs"
proof (cases "token \<in> {''NIL'', ''AUTO'', ''COR''}")
  case True
  with assms show ?thesis
    by (simp only: sky_step_def if_True) simp
next
  case admin: False
  show ?thesis
  proof (cases "token = ''CAVOK''")
    case True
    then have "sky_step token conditions = Inr (conditions @ [''Ceiling and visibility OK''])"
      by (simp add: sky_step_def)
    with assms show ?thesis
      by (auto simp: starts_in_def)
  next
    case cavok: False
    note other = sky_step_other [OF admin cavok, of conditions]
    show ?thesis
    proof (cases "map_of CLOUD_COVER_MAP (take 3 token) \<noteq> None \<and> isdigit (take 3 (drop 3 token))")
      case True
      then have c: "take 3 token \<in> cover_codes"
        using known_cover_take3 [of token] by blast
      have "sky_step token conditions
          = bind (py_int (take 3 (drop 3 token)))
              (\<lambda>n. Inr (conditions @ [the (map_of CLOUD_COVER_MAP (take 3 token)) @ '' at ''
                     @ show_int (n * 100) @ '' ft'']))"
        using True by (simp only: other simp_thms if_True)
      with assms(1) obtain n where "cs = conditions
          @ [the (map_of CLOUD_COVER_MAP (take 3 token)) @ '' at '' @ show_int (n * 100) @ '' ft'']"
        by (auto simp: bind_def split: sum.splits)
      with assms(2) cover_head [OF c] show ?thesis
        by simp
    next
      case False
      then have "sky_step token conditions
          = (if token \<in> {''SKC'', ''CLR''}
             then (if ''Clear sky'' \<notin> set conditions then Inr (conditions @ [''Clear sky''])
                   else Inr conditions)
             else Inr conditions)"
        by (simp only: other simp_thms if_False)
      with assms(1) have "cs = conditions \<or> cs = conditions @ [''Clear sky'']"
        by (auto split: if_splits)
      with assms(2) show ?thesis
        by (auto simp: starts_in_def)
    qed
  qed
qed

lemma sky_loop_heads:
  "sky_loop tokens conditions = Inr cs \<Longrightarrow> list_all (starts_in ''Ccfsbo'') conditions
   \<Longrightarrow> list_all (starts_in ''Ccfsbo'') cs"
proof (induction tokens arbitrary: conditions)
  case Nil
  then show ?case by simp
next
  case (Cons t tokens)
  from Cons.prems(1) obtain mid where mid: "sky_step t conditions = Inr mid"
    "sky_loop tokens mid = Inr cs"
    by (auto simp: bind_def split: sum.splits)
  from mid(1) Cons.prems(2) have "list_all (starts_in ''Ccfsbo'') mid"
    by (rule sky_step_heads)
  with mid(2) show ?case
    by (rule Cons.IH)
qed

lemma temperature_head:
  assumes "extract_temperature tokens = Inr (Some p)"
  shows "startswith p ''Temperature '' \<and> starts_in ''T'' p"
  using assms unfolding extract_temperature_find
  by (auto simp: startswith_def starts_in_def split: option.splits)

lemma dew_point_head:
  assumes "extract_dew_point tokens = Inr (Some p)"
  shows "startswith p ''Dew point '' \<and> starts_in ''D'' p"
  using assms unfolding extract_dew_point_find
  by (auto simp: startswith_def starts_in_def split: option.splits)

lemma temperature_dew_none:
  "extract_temperature tokens = Inr None \<longleftrightarrow> extract_dew_point tokens = Inr None"
  unfolding extract_temperature_find extract_dew_point_find
  by (simp split: option.splits)

lemma temperature_returns: "\<exists>r. extract_temperature tokens = Inr r"
  unfolding extract_temperature_find by (simp split: option.splits)

lemma dew_point_returns: "\<exists>r. extract_dew_point tokens = Inr r"
  unfolding extract_dew_point_find by (simp split: option.splits)

lemma wind_text_head: "starts_in ''CVW'' (wind_text m)"
  by (cases m) (simp add: wind_text_def starts_in_def)

lemma wind_head:
  assumes "extract_wind tokens = Inr (Some p)"
  shows "starts_in ''CVW'' p"
proof -
  from assms obtain t where "p = wind_text (the (WIND_PATTERN t))"
    unfolding extract_wind_find by (auto split: option.splits)
  then show ?thesis
    by (simp only: wind_text_head)
qed

lemma visibility_head:
  "extract_visibility tokens = Inr (Some p) \<Longrightarrow> starts_in ''V'' p"
proof (induction tokens)
  case Nil
  then show ?case by simp
next
  case (Cons t tokens)
  then show ?case
    by (auto simp: bind_def starts_in_def split: if_splits sum.splits option.splits)
qed

lemma pressure_head:
  "extract_pressure tokens = Inr (Some p) \<Longrightarrow> starts_in ''P'' p"
proof (induction tokens)
  case Nil
  then show ?case by simp
next
  case (Cons t tokens)
  then show ?case
    by (auto simp: bind_def starts_in_def split: if_splits sum.splits option.splits)
qed

lemma weather_head:
  "extract_weather tokens = Some p \<Longrightarrow> starts_in ''W'' p"
  by (auto simp: extract_weather_def Let_def starts_in_def split: if_splits)

lemma truthy_heads:
  "(\<And>p. x = Some p \<Longrightarrow> starts_in cs p) \<Longrightarrow> list_all (starts_in cs) (truthy x)"
  by (auto simp: truthy_def split: option.splits)

lemma starts_in_mono: "starts_in a p \<Longrightarrow> set a \<subseteq> set b \<Longrightarrow> starts_in b p"
  by (auto simp: starts_in_def)

lemma collect_phrases_parts:
  assumes "collect_phrases tokens = Inr P"
  obtains sky temp dew rest where "P = sky @ truthy temp @ truthy dew @ rest"
    and "extract_temperature tokens = Inr temp" and "extract_dew_point tokens = Inr dew"
    and "list_all (starts_in ''Ccfsbo'') sky" and "list_all (starts_in ''CVWP'') rest"
proof -
  from assms obtain sky temp dew wind vis pres where
    sky: "extract_sky_conditions tokens = Inr sky"
    and temp: "extract_temperature tokens = Inr temp"
    and dew: "extract_dew_point tokens = Inr dew"
    and wind: "extract_wind tokens = Inr wind"
    and vis: "extract_visibility tokens = Inr vis"
    and pres: "extract_pressure tokens = Inr pres"
    and P: "P = sky @ truthy temp @ truthy dew @ truthy wind @ truthy vis @ truthy pres
              @ truthy (extract_weather tokens)"
    by (auto simp: collect_phrases_def bind_def split: sum.splits)
  have "list_all (starts_in ''Ccfsbo'') sky"
    using sky unfolding extract_sky_conditions_def by (rule sky_loop_heads) simp
  moreover have "list_all (starts_in ''CVWP'') (truthy wind)"
    by (rule truthy_heads) (use wind in \<open>auto intro: starts_in_mono dest!: wind_head\<close>)
  moreover have "list_all (starts_in ''CVWP'') (truthy vis)"
    by (rule truthy_heads) (use vis in \<open>auto intro: starts_in_mono dest!: visibility_head\<close>)
  moreover have "list_all (starts_in ''CVWP'') (truthy pres)"
    by (rule truthy_heads) (use pres in \<open>auto intro: starts_in_mono dest!: pressure_head\<close>)
  moreover have "list_all (starts_in ''CVWP'') (truthy (extract_weather tokens))"
    by (rule truthy_heads) (auto intro: starts_in_mono dest!: weather_head)
  ultimately show ?thesis
    using that [of sky temp dew "truthy wind @ truthy vis @ truthy pres
        @ truthy (extract_weather tokens)"] temp dew P
    by simp
qed

lemma no_head_no_prefix:
  assumes "starts_in cs q" "startswith q w" "w \<noteq> []" "hd w \<notin> set cs"
  shows False
proof -
  from assms(2,3) have "hd q = hd w"
    by (metis startswith_def hd_take length_greater_0_conv)
  with assms(1,4) show False
    by (simp add: starts_in_def)
qed

lemma temperature_dew_in_output:
  assumes "collect_phrases tokens = Inr P"
  shows "list_ex (\<lambda>p. startswith p ''Temperature '') (deduplicate_preserve_order P)
       = list_ex (\<lambda>p. startswith p ''Dew point '') (deduplicate_preserve_order P)"
proof -
  from assms obtain sky temp dew rest where P: "P = sky @ truthy temp @ truthy dew @ rest"
    and temp: "extract_temperature tokens = Inr temp" and dew: "extract_dew_point tokens = Inr dew"
    and sky: "list_all (starts_in ''Ccfsbo'') sky" and rest: "list_all (starts_in ''CVWP'') rest"
    by (rule collect_phrases_parts)
  show ?thesis
  proof (cases temp)
    case None
    with temp dew have "dew = None"
      using temperature_dew_none [of tokens] by simp
    with None P have "P = sky @ rest"
      by (simp add: truthy_def)
    with sky rest have all: "\<forall>q \<in> set P. starts_in ''CcfsboVWP'' q"
      by (auto simp: list_all_iff intro: starts_in_mono)
    have "\<not> startswith q ''Temperature ''" "\<not> startswith q ''Dew point ''"
      if "q \<in> set (deduplicate_preserve_order P)" for q
    proof -
      from that have "starts_in ''CcfsboVWP'' q"
        using all dedup_subset [of P] by blast
      then show "\<not> startswith q ''Temperature ''" "\<not> startswith q ''Dew point ''"
        by (auto dest: no_head_no_prefix)
    qed
    then show ?thesis
      by (simp add: list_ex_iff)
  next
    case (Some p)
    with temp dew obtain d where d: "dew = Some d"
      using temperature_dew_none [of tokens] by (cases dew) simp_all
    have p: "startswith p ''Temperature ''" "starts_in ''T'' p"
      using temp Some temperature_head by simp_all
    have dd: "startswith d ''Dew point ''" "starts_in ''D'' d"
      using dew d dew_point_head by simp_all
    have P': "P = sky @ p # d # rest"
      using P Some d p(2) dd(2) by (simp add: truthy_def starts_in_def)
    have 1: "\<forall>s \<in> set sky. lower s \<noteq> lower p"
    proof
      fix s
      assume "s \<in> set sky"
      then have "starts_in ''Ccfsbo'' s"
        using sky by (simp add: list_all_iff)
      then show "lower s \<noteq> lower p"
        using p(2) by (rule lower_differs) (simp add: lower_heads)
    qed
    have 2: "\<forall>s \<in> set (sky @ [p]). lower s \<noteq> lower d"
    proof
      fix s
      assume "s \<in> set (sky @ [p])"
      then have "starts_in ''CcfsboT'' s"
        using sky p(2) by (auto simp: list_all_iff intro: starts_in_mono)
      then show "lower s \<noteq> lower d"
        using dd(2) by (rule lower_differs) (simp add: lower_heads)
    qed
    have "p \<in> set (deduplicate_preserve_order P)"
      unfolding P' using 1 by (rule first_occurrence_kept)
    moreover have "d \<in> set (deduplicate_preserve_order ((sky @ [p]) @ d # rest))"
      using 2 by (rule first_occurrence_kept)
    then have "d \<in> set (deduplicate_preserve_order P)"
      by (simp add: P')
    ultimately show ?thesis
      using p(1) dd(1) by (auto simp: list_ex_iff)
  qed
qed

text \<open>
  C10. The temperature matcher and the dew point matcher never raise, and both decode the
  first token that matches the temperature pattern: the one its first group, the other its
  second. So one returns a phrase exactly when the other does, and among the phrases that
  \<open>parse_metar\<close> joins, after the deduplication, one begins with \<open>Temperature\<close> exactly
  when one begins with \<open>Dew point\<close>.
\<close>

theorem temperature_and_dew_point_together:
  "extract_temperature tokens =
     (case find (\<lambda>t. TEMP_PATTERN t \<noteq> None) tokens of
        None \<Rightarrow> Inr None
      | Some t \<Rightarrow> Inr (Some (''Temperature ''
          @ show_int (temperature_value (fst (the (TEMP_PATTERN t)))) @ [degree_sign] @ ''C'')))
   \<and> extract_dew_point tokens =
     (case find (\<lambda>t. TEMP_PATTERN t \<noteq> None) tokens of
        None \<Rightarrow> Inr None
      | Some t \<Rightarrow> Inr (Some (''Dew point ''
          @ show_int (temperature_value (snd (the (TEMP_PATTERN t)))) @ [degree_sign] @ ''C'')))
   \<and> (extract_temperature tokens = Inr None) = (extract_dew_point tokens = Inr None)
   \<and> (case collect_phrases tokens of
         Inl e \<Rightarrow> True
       | Inr phrases \<Rightarrow>
           list_ex (\<lambda>p. startswith p ''Temperature '') (deduplicate_preserve_order phrases)
           = list_ex (\<lambda>p. startswith p ''Dew point '') (deduplicate_preserve_order phrases))
   \<and> parse_metar raw_metar =
       (if raw_metar = [] then Inr unable
        else case collect_phrases (split raw_metar) of
               Inl e \<Rightarrow> Inl e
             | Inr phrases \<Rightarrow>
                 Inr (if phrases \<noteq> [] then join (deduplicate_preserve_order phrases)
                      else unable))"
proof (intro conjI)
  show "extract_temperature tokens =
     (case find (\<lambda>t. TEMP_PATTERN t \<noteq> None) tokens of
        None \<Rightarrow> Inr None
      | Some t \<Rightarrow> Inr (Some (''Temperature ''
          @ show_int (temperature_value (fst (the (TEMP_PATTERN t)))) @ [degree_sign] @ ''C'')))"
    by (rule extract_temperature_find)
  show "extract_dew_point tokens =
     (case find (\<lambda>t. TEMP_PATTERN t \<noteq> None) tokens of
        None \<Rightarrow> Inr None
      | Some t \<Rightarrow> Inr (Some (''Dew point ''
          @ show_int (temperature_value (snd (the (TEMP_PATTERN t)))) @ [degree_sign] @ ''C'')))"
    by (rule extract_dew_point_find)
  show "(extract_temperature tokens = Inr None) = (extract_dew_point tokens = Inr None)"
    by (rule temperature_dew_none)
  show "case collect_phrases tokens of
         Inl e \<Rightarrow> True
       | Inr phrases \<Rightarrow>
           list_ex (\<lambda>p. startswith p ''Temperature '') (deduplicate_preserve_order phrases)
           = list_ex (\<lambda>p. startswith p ''Dew point '') (deduplicate_preserve_order phrases)"
  proof (cases "collect_phrases tokens")
    case (Inl e)
    then show ?thesis by simp
  next
    case (Inr phrases)
    then show ?thesis
      using temperature_dew_in_output [of tokens phrases] by simp
  qed
  show "parse_metar raw_metar =
       (if raw_metar = [] then Inr unable
        else case collect_phrases (split raw_metar) of
               Inl e \<Rightarrow> Inl e
             | Inr phrases \<Rightarrow>
                 Inr (if phrases \<noteq> [] then join (deduplicate_preserve_order phrases)
                      else unable))"
    by (simp add: parse_metar_def bind_def split: sum.splits)
qed

section \<open>The claim on the report that cannot be parsed\<close>

lemma split_spaces: "list_all is_space s \<Longrightarrow> split s = []"
  unfolding split_def by (induction s) simp_all

lemma collect_phrases_empty: "collect_phrases [] = Inr []"
  by (simp add: collect_phrases_def extract_sky_conditions_def extract_weather_def bind_def
      truthy_def)

lemma parse_metar_no_phrases:
  assumes "extract_sky_conditions (split raw_metar) = Inr []"
    "extract_temperature (split raw_metar) = Inr None"
    "extract_dew_point (split raw_metar) = Inr None"
    "extract_wind (split raw_metar) = Inr None"
    "extract_visibility (split raw_metar) = Inr None"
    "extract_pressure (split raw_metar) = Inr None"
    "extract_weather (split raw_metar) = None"
  shows "parse_metar raw_metar = Inr unable"
  using assms by (simp add: parse_metar_def collect_phrases_def bind_def truthy_def)

text \<open>
  C2. For an input that is empty or holds white space only, \<open>parse_metar\<close> returns the fixed
  string \<open>Unable to parse METAR report.\<close>; it returns the same string for every input on
  whose tokens no matcher gives a phrase, the report \<open>KJFK\<close> among them.
\<close>

theorem parse_metar_sentinel:
  "(list_all is_space raw_metar \<longrightarrow> parse_metar raw_metar = Inr unable)
   \<and> (extract_sky_conditions (split raw_metar) = Inr []
       \<and> extract_temperature (split raw_metar) = Inr None
       \<and> extract_dew_point (split raw_metar) = Inr None
       \<and> extract_wind (split raw_metar) = Inr None
       \<and> extract_visibility (split raw_metar) = Inr None
       \<and> extract_pressure (split raw_metar) = Inr None
       \<and> extract_weather (split raw_metar) = None
      \<longrightarrow> parse_metar raw_metar = Inr unable)
   \<and> parse_metar [] = Inr unable
   \<and> parse_metar ''KJFK'' = Inr unable
   \<and> unable = ''Unable to parse METAR report.''"
proof (intro conjI impI)
  assume "list_all is_space raw_metar"
  then have "split raw_metar = []"
    by (rule split_spaces)
  then show "parse_metar raw_metar = Inr unable"
    by (simp add: parse_metar_def collect_phrases_empty bind_def)
next
  assume "extract_sky_conditions (split raw_metar) = Inr []
       \<and> extract_temperature (split raw_metar) = Inr None
       \<and> extract_dew_point (split raw_metar) = Inr None
       \<and> extract_wind (split raw_metar) = Inr None
       \<and> extract_visibility (split raw_metar) = Inr None
       \<and> extract_pressure (split raw_metar) = Inr None
       \<and> extract_weather (split raw_metar) = None"
  then show "parse_metar raw_metar = Inr unable"
    by (intro parse_metar_no_phrases) simp_all
next
  show "parse_metar [] = Inr unable"
    by (simp add: parse_metar_def)
  show "parse_metar ''KJFK'' = Inr unable"
    by code_simp
  show "unable = ''Unable to parse METAR report.''"
    by (simp add: unable_def)
qed

theorem parse_metar_sentinel_witness:
  "list_all is_space [CHR '' '', CHR 0x09, CHR 0x0A]
   \<and> parse_metar [CHR '' '', CHR 0x09, CHR 0x0A] = Inr ''Unable to parse METAR report.''
   \<and> extract_sky_conditions (split ''KJFK 051651Z'') = Inr []
   \<and> extract_temperature (split ''KJFK 051651Z'') = Inr None
   \<and> extract_dew_point (split ''KJFK 051651Z'') = Inr None
   \<and> extract_wind (split ''KJFK 051651Z'') = Inr None
   \<and> extract_visibility (split ''KJFK 051651Z'') = Inr None
   \<and> extract_pressure (split ''KJFK 051651Z'') = Inr None
   \<and> extract_weather (split ''KJFK 051651Z'') = None
   \<and> parse_metar ''KJFK 051651Z'' = Inr ''Unable to parse METAR report.''"
proof -
  have sp: "list_all is_space [CHR '' '', CHR 0x09, CHR 0x0A]"
    by code_simp
  have none: "extract_sky_conditions (split ''KJFK 051651Z'') = Inr []
       \<and> extract_temperature (split ''KJFK 051651Z'') = Inr None
       \<and> extract_dew_point (split ''KJFK 051651Z'') = Inr None
       \<and> extract_wind (split ''KJFK 051651Z'') = Inr None
       \<and> extract_visibility (split ''KJFK 051651Z'') = Inr None
       \<and> extract_pressure (split ''KJFK 051651Z'') = Inr None
       \<and> extract_weather (split ''KJFK 051651Z'') = None"
    by code_simp
  have u: "unable = ''Unable to parse METAR report.''"
    by (simp add: unable_def)
  have "list_all is_space [CHR '' '', CHR 0x09, CHR 0x0A]
      \<longrightarrow> parse_metar [CHR '' '', CHR 0x09, CHR 0x0A] = Inr unable"
    using parse_metar_sentinel [of "[CHR '' '', CHR 0x09, CHR 0x0A]"] by (rule conjunct1)
  from this sp have a: "parse_metar [CHR '' '', CHR 0x09, CHR 0x0A] = Inr unable"
    by (rule mp)
  have "extract_sky_conditions (split ''KJFK 051651Z'') = Inr []
       \<and> extract_temperature (split ''KJFK 051651Z'') = Inr None
       \<and> extract_dew_point (split ''KJFK 051651Z'') = Inr None
       \<and> extract_wind (split ''KJFK 051651Z'') = Inr None
       \<and> extract_visibility (split ''KJFK 051651Z'') = Inr None
       \<and> extract_pressure (split ''KJFK 051651Z'') = Inr None
       \<and> extract_weather (split ''KJFK 051651Z'') = None
      \<longrightarrow> parse_metar ''KJFK 051651Z'' = Inr unable"
    using parse_metar_sentinel [of "''KJFK 051651Z''"] by (elim conjE)
  from this none have b: "parse_metar ''KJFK 051651Z'' = Inr unable"
    by (rule mp)
  from sp none a b show ?thesis
    unfolding u by (intro conjI) (elim conjE, assumption)+
qed

section \<open>The claim that the decoder never raises\<close>

text \<open>
  C1. The report \<open>1/0SM\<close> makes \<open>parse_metar\<close> raise: the division by zero in
  \<open>_fraction_to_float\<close> is no \<open>ValueError\<close>, so the handler of
  \<open>_convert_visibility_to_float\<close> does not catch it.
\<close>

theorem parse_metar_raises:
  "parse_metar ''1/0SM'' = Inl ZeroDivisionError"
  by code_simp

lemma parse_metar_raises_superscript:
  "parse_metar (''FEW'' @ [CHR 0xB2]) = Inl ValueError"
  by code_simp

end
